theory Spec2Isabelle
  imports Main
begin

section \<open>Python values used by the order ledger\<close>

text \<open>
  A Python \<open>str\<close> is the list of its Unicode code points, so that \<open>len\<close> is
  \<open>length\<close> and the Persian labels of \<open>mapping.py\<close> can be written down.
  \<open>py\<close> turns an ASCII literal into such a list.
\<close>

type_synonym pystr = "nat list"

definition py :: "string \<Rightarrow> pystr" where
  "py s = map of_char s"

datatype error = AttributeError | ValueError | IndexError

text \<open>\<open>str.isspace\<close> of a single code point, as \<open>str.strip()\<close> uses it.\<close>

definition is_space :: "nat \<Rightarrow> bool" where
  "is_space c \<longleftrightarrow> (9 \<le> c \<and> c \<le> 13) \<or> (28 \<le> c \<and> c \<le> 32) \<or> c = 133 \<or> c = 160 \<or> c = 5760
     \<or> (8192 \<le> c \<and> c \<le> 8202) \<or> c = 8232 \<or> c = 8233 \<or> c = 8239 \<or> c = 8287 \<or> c = 12288"

definition strip :: "pystr \<Rightarrow> pystr" where
  "strip s = rev (dropWhile is_space (rev (dropWhile is_space s)))"

definition startswith :: "pystr \<Rightarrow> pystr \<Rightarrow> bool" where
  "startswith s p \<longleftrightarrow> take (length p) s = p"

definition endswith :: "pystr \<Rightarrow> pystr \<Rightarrow> bool" where
  "endswith s p \<longleftrightarrow> length p \<le> length s \<and> drop (length s - length p) s = p"

text \<open>\<open>str(n)\<close> for an integer, and the format \<open>{n:02d}\<close>.\<close>

fun str_nat :: "nat \<Rightarrow> pystr" where
  "str_nat n = (if n < 10 then [48 + n] else str_nat (n div 10) @ [48 + n mod 10])"

definition str_int :: "int \<Rightarrow> pystr" where
  "str_int i = (if i < 0 then py ''-'' @ str_nat (nat (- i)) else str_nat (nat i))"

definition fmt02d :: "int \<Rightarrow> pystr" where
  "fmt02d i = (let s = str_int i in if length s < 2 then py ''0'' @ s else s)"

text \<open>\<open>s.split(c)\<close> for a one-character separator.\<close>

fun split_on :: "nat \<Rightarrow> pystr \<Rightarrow> pystr list" where
  "split_on c [] = [[]]"
| "split_on c (x # xs) =
     (if x = c then [] # split_on c xs
      else (case split_on c xs of [] \<Rightarrow> [[x]] | p # ps \<Rightarrow> (x # p) # ps))"

text \<open>
  \<open>str.translate\<close> with a table made by \<open>str.maketrans\<close>, and the two digit tables of
  \<open>fetchWCOrders.py\<close> (Persian digits U+06F0.., Arabic-Indic digits U+0660..).
\<close>

definition translate :: "(nat \<times> nat) list \<Rightarrow> pystr \<Rightarrow> pystr" where
  "translate tbl s = map (\<lambda>c. case map_of tbl c of Some d \<Rightarrow> d | None \<Rightarrow> c) s"

definition persian_to_english :: "(nat \<times> nat) list" where
  "persian_to_english = zip [1776, 1777, 1778, 1779, 1780, 1781, 1782, 1783, 1784, 1785] (py ''0123456789'')"

definition arabic_to_english :: "(nat \<times> nat) list" where
  "arabic_to_english = zip [1632, 1633, 1634, 1635, 1636, 1637, 1638, 1639, 1640, 1641] (py ''0123456789'')"

section \<open>The tables of mapping.py\<close>

text \<open>
  The dictionaries are association lists in source order. Non-ASCII values are given by their
  code points.
\<close>

definition ENGLISH_TEXT :: "(string \<times> pystr) list" where
  "ENGLISH_TEXT = [
    (''sum_month_orders_row_text'', py ''Monthly Orders''),
    (''sum_all_orders_row_text'', py ''All Orders'')]"

definition PERSIAN_TEXT :: "(string \<times> pystr) list" where
  "PERSIAN_TEXT = [
    (''sum_month_orders_row_text'', [1587, 1601, 1575, 1585, 1588, 1575, 1578, 32, 1605, 1575,
       1607]),
    (''sum_all_orders_row_text'', [1705, 1604, 32, 1587, 1601, 1575, 1585, 1588, 1575, 1578])]"

definition STATES :: "(pystr \<times> pystr) list" where
  "STATES = [
    (py ''EAZ'', [1570, 1584, 1585, 1576, 1575, 1740, 1580, 1575, 1606, 32, 1588, 1585, 1602,
       1740]),
    (py ''WAZ'', [1570, 1584, 1585, 1576, 1575, 1740, 1580, 1575, 1606, 32, 1594, 1585, 1576,
       1740]),
    (py ''ADL'', [1575, 1585, 1583, 1576, 1740, 1604]),
    (py ''ESF'', [1575, 1589, 1601, 1607, 1575, 1606]),
    (py ''ABZ'', [1575, 1604, 1576, 1585, 1586]),
    (py ''ILM'', [1575, 1740, 1604, 1575, 1605]),
    (py ''BHR'', [1576, 1608, 1588, 1607, 1585]),
    (py ''THR'', [1578, 1607, 1585, 1575, 1606]),
    (py ''CHB'', [1670, 1607, 1575, 1585, 1605, 1581, 1575, 1604, 32, 1608, 32, 1576, 1582, 1578,
       1740, 1575, 1585, 1740]),
    (py ''SKH'', [1582, 1585, 1575, 1587, 1575, 1606, 32, 1580, 1606, 1608, 1576, 1740]),
    (py ''RKH'', [1582, 1585, 1575, 1587, 1575, 1606, 32, 1585, 1590, 1608, 1740]),
    (py ''NKH'', [1582, 1585, 1575, 1587, 1575, 1606, 32, 1588, 1605, 1575, 1604, 1740]),
    (py ''KHZ'', [1582, 1608, 1586, 1587, 1578, 1575, 1606]),
    (py ''ZJN'', [1586, 1606, 1580, 1575, 1606]),
    (py ''SMN'', [1587, 1605, 1606, 1575, 1606]),
    (py ''SBN'', [1587, 1740, 1587, 1578, 1575, 1606, 32, 1608, 32, 1576, 1604, 1608, 1670, 1587,
       1578, 1575, 1606]),
    (py ''FRS'', [1601, 1575, 1585, 1587]),
    (py ''GZN'', [1602, 1586, 1608, 1740, 1606]),
    (py ''QHM'', [1602, 1605]),
    (py ''KRD'', [1705, 1585, 1583, 1587, 1578, 1575, 1606]),
    (py ''KRN'', [1705, 1585, 1605, 1575, 1606]),
    (py ''KRH'', [1705, 1585, 1605, 1575, 1606, 1588, 1575, 1607]),
    (py ''KBD'', [1705, 1607, 1711, 1740, 1604, 1608, 1740, 1607, 32, 1608, 32, 1576, 1608, 1740,
       1585, 1575, 1581, 1605, 1583]),
    (py ''GLS'', [1711, 1604, 1587, 1578, 1575, 1606]),
    (py ''GIL'', [1711, 1740, 1604, 1575, 1606]),
    (py ''LRS'', [1604, 1585, 1587, 1578, 1575, 1606]),
    (py ''MZN'', [1605, 1575, 1586, 1606, 1583, 1585, 1575, 1606]),
    (py ''MKZ'', [1605, 1585, 1705, 1586, 1740]),
    (py ''HRZ'', [1607, 1585, 1605, 1586, 1711, 1575, 1606]),
    (py ''HDN'', [1607, 1605, 1583, 1575, 1606]),
    (py ''YZD'', [1740, 1586, 1583])]"

definition ENGLISH_COLUMN_HEADERS :: "(string \<times> pystr) list" where
  "ENGLISH_COLUMN_HEADERS = [
    (''order_id'', py ''Order ID''),
    (''status'', py ''Status''),
    (''date_paid'', py ''Date Paid''),
    (''customer_id'', py ''Customer ID''),
    (''billing_name'', py ''Billing Name''),
    (''phone'', py ''Phone''),
    (''email'', py ''Email''),
    (''birthday'', py ''Birthday''),
    (''state_city'', py ''State/City''),
    (''address'', py ''Address''),
    (''postcode'', py ''Postcode''),
    (''total'', py ''Total''),
    (''shipping'', py ''Shipping''),
    (''discount'', py ''Discount''),
    (''sepidar_discount'', py ''Sepidar Discount''),
    (''product_sku'', py ''Product SKU''),
    (''item_name'', py ''Item Name''),
    (''quantity'', py ''Quantity''),
    (''item_total'', py ''Item Total''),
    (''sepidar_id'', py ''Sepidar ID''),
    (''datei'', py ''Shipping Date''),
    (''tracking_code'', py ''Tracking Code''),
    (''com_postal_payment'', py ''Company Postal Payment''),
    (''com_postage'', py ''Company Postage''),
    (''delivery_date'', py ''Delivery Date'')]"

definition PERSIAN_COLUMN_HEADERS :: "(string \<times> pystr) list" where
  "PERSIAN_COLUMN_HEADERS = [
    (''order_id'', [1587, 1601, 1575, 1585, 1588]),
    (''status'', [1608, 1590, 1593, 1610, 1578]),
    (''date_paid'', [1578, 1575, 1585, 1610, 1582, 32, 1662, 1585, 1583, 1575, 1582, 1578]),
    (''customer_id'', [1705, 1583, 32, 1605, 1588, 1578, 1585, 1740]),
    (''billing_name'', [1606, 1575, 1605, 32, 1608, 32, 1606, 1575, 1605, 32, 1582, 1575, 1606,
       1608, 1575, 1583, 1711, 1740]),
    (''phone'', [1578, 1604, 1601, 1606]),
    (''email'', [1575, 1610, 1605, 1610, 1604]),
    (''birthday'', [1578, 1608, 1604, 1583]),
    (''state_city'', [1575, 1587, 1578, 1575, 1606, 1548, 32, 1588, 1607, 1585]),
    (''address'', [1570, 1583, 1585, 1587]),
    (''postcode'', [1705, 1583, 32, 1662, 1587, 1578, 1740]),
    (''total'', [1705, 1604, 32, 1662, 1585, 1583, 1575, 1582, 1578]),
    (''shipping'', [1662, 1587, 1578]),
    (''discount'', [1578, 1582, 1601, 1610, 1601]),
    (''sepidar_discount'', [1578, 1582, 1601, 1610, 1601, 32, 1583, 1585, 32, 1587, 1662, 1610,
       1583, 1575, 1585]),
    (''product_sku'', py ''SKU''),
    (''item_name'', [1606, 1575, 1605, 32, 1605, 1581, 1589, 1608, 1604]),
    (''quantity'', [1578, 1593, 1583, 1575, 1583]),
    (''item_total'', [1605, 1576, 1604, 1594]),
    (''sepidar_id'', [1705, 1583, 32, 1587, 1662, 1610, 1583, 1575, 1585]),
    (''datei'', [1578, 1575, 1585, 1740, 1582, 32, 1575, 1585, 1587, 1575, 1604]),
    (''tracking_code'', [1705, 1583, 32, 1585, 1607, 1711, 1740, 1585, 1740]),
    (''com_postal_payment'', [1662, 1585, 1583, 1575, 1582, 1578, 1740, 32, 1588, 1585, 1705, 1578,
       32, 1576, 1575, 1576, 1578, 32, 1662, 1587, 1578]),
    (''com_postage'', [1607, 1586, 1740, 1606, 1607, 32, 1662, 1587, 1578, 32, 1588, 1585, 1705,
       1578]),
    (''delivery_date'', [1578, 1575, 1585, 1740, 1582, 32, 1578, 1581, 1608, 1740, 1604])]"

definition ENGLISH_STATUS :: "(pystr \<times> pystr) list" where
  "ENGLISH_STATUS = [
    (py ''pending'', py ''Pending''),
    (py ''processing'', py ''Processing''),
    (py ''on-hold'', py ''On-Hold''),
    (py ''box'', py ''Boxing''),
    (py ''completed'', py ''Completed''),
    (py ''cancelled'', py ''Cancelled''),
    (py ''refunded'', py ''Refunded''),
    (py ''failed'', py ''Failed''),
    (py ''deliver'', py ''Deliver'')]"

definition PERSIAN_STATUS :: "(pystr \<times> pystr) list" where
  "PERSIAN_STATUS = [
    (py ''pending'', [1583, 1585, 32, 1581, 1575, 1604, 32, 1575, 1606, 1578, 1592, 1575, 1585]),
    (py ''processing'', [1583, 1585, 32, 1581, 1575, 1604, 32, 1662, 1585, 1583, 1575, 1586, 1588]),
    (py ''on-hold'', [1583, 1585, 32, 1575, 1606, 1578, 1592, 1575, 1585]),
    (py ''box'', [1583, 1585, 32, 1581, 1575, 1604, 32, 1576, 1587, 1578, 1607, 8204, 1576, 1606,
       1583, 1740]),
    (py ''completed'', [1578, 1705, 1605, 1740, 1604, 32, 1588, 1583, 1607]),
    (py ''cancelled'', [1604, 1594, 1608, 32, 1588, 1583, 1607]),
    (py ''refunded'', [1576, 1575, 1586, 1662, 1585, 1583, 1575, 1582, 1578, 32, 1588, 1583, 1607]),
    (py ''failed'', [1606, 1575, 1605, 1608, 1601, 1602]),
    (py ''deliver'', [1575, 1585, 1587, 1575, 1604, 32, 1588, 1583, 1607])]"

datatype lang = En | Fa

definition COLUMN_HEADERS :: "lang \<Rightarrow> (string \<times> pystr) list" where
  "COLUMN_HEADERS l = (case l of En \<Rightarrow> ENGLISH_COLUMN_HEADERS | Fa \<Rightarrow> PERSIAN_COLUMN_HEADERS)"

definition STATUS :: "lang \<Rightarrow> (pystr \<times> pystr) list" where
  "STATUS l = (case l of En \<Rightarrow> ENGLISH_STATUS | Fa \<Rightarrow> PERSIAN_STATUS)"

definition TEXT :: "lang \<Rightarrow> (string \<times> pystr) list" where
  "TEXT l = (case l of En \<Rightarrow> ENGLISH_TEXT | Fa \<Rightarrow> PERSIAN_TEXT)"

text \<open>
  \<open>d[k]\<close> for the literal keys the program subscripts with; each of them is present in both
  language tables, so the \<open>KeyError\<close> branch is never taken.
\<close>

definition item :: "('k \<times> pystr) list \<Rightarrow> 'k \<Rightarrow> pystr" where
  "item d k = (case map_of d k of Some v \<Rightarrow> v | None \<Rightarrow> [])"

text \<open>\<open>list(COLUMN_HEADERS.keys()).index(key) + 1\<close>: the 1-based column of a key.\<close>

definition column_keys :: "string list" where
  "column_keys = map fst ENGLISH_COLUMN_HEADERS"

fun index_of :: "'a list \<Rightarrow> 'a \<Rightarrow> nat" where
  "index_of [] k = 0"
| "index_of (x # xs) k = (if x = k then 0 else Suc (index_of xs k))"

definition col :: "string \<Rightarrow> nat" where
  "col key = index_of column_keys key + 1"

text \<open>\<open>openpyxl.utils.get_column_letter\<close>.\<close>

fun get_column_letter :: "nat \<Rightarrow> pystr" where
  "get_column_letter n =
     (if n = 0 then [] else get_column_letter ((n - 1) div 26) @ [65 + (n - 1) mod 26])"

declare str_nat.simps [simp del] get_column_letter.simps [simp del]

section \<open>fetch_page: retries with growing timeouts\<close>

text \<open>
  What one request can do: deliver the decoded payload or raise one of the exceptions that
  \<open>fetch_page\<close> distinguishes. The transport is a function of the attempt number and the
  timeout the client was built with.
\<close>

datatype 'a response =
    Payload "'a list"
  | Timeout
  | ConnectionError
  | HTTPError
  | RequestException
  | OtherException

text \<open>
  The loop \<open>for attempt in range(max_retries)\<close>, counting the attempts still to come. The
  result is the list of timeouts of the requests issued, and the returned value (\<open>None\<close> when
  the loop body never runs, as Python's implicit return).
\<close>

fun fetch_attempts ::
  "(nat \<Rightarrow> int \<Rightarrow> 'a response) \<Rightarrow> int \<Rightarrow> nat \<Rightarrow> nat \<Rightarrow> int list \<times> 'a list option" where
  "fetch_attempts wcapi_get TIMEOUT max_retries 0 = ([], None)"
| "fetch_attempts wcapi_get TIMEOUT max_retries (Suc n) =
     (let attempt = max_retries - Suc n;
          current_timeout = TIMEOUT + 5 * int attempt
      in case wcapi_get attempt current_timeout of
           Payload p \<Rightarrow> ([current_timeout], Some p)
         | Timeout \<Rightarrow>
             if attempt < max_retries - 1
             then (case fetch_attempts wcapi_get TIMEOUT max_retries n of
                     (ts, r) \<Rightarrow> (current_timeout # ts, r))
             else ([current_timeout], Some [])
         | ConnectionError \<Rightarrow>
             if attempt < max_retries - 1
             then (case fetch_attempts wcapi_get TIMEOUT max_retries n of
                     (ts, r) \<Rightarrow> (current_timeout # ts, r))
             else ([current_timeout], Some [])
         | HTTPError \<Rightarrow> ([current_timeout], Some [])
         | RequestException \<Rightarrow> ([current_timeout], Some [])
         | OtherException \<Rightarrow> ([current_timeout], Some []))"

definition fetch_page :: "(nat \<Rightarrow> int \<Rightarrow> 'a response) \<Rightarrow> int \<Rightarrow> nat \<Rightarrow> int list \<times> 'a list option" where
  "fetch_page wcapi_get TIMEOUT max_retries = fetch_attempts wcapi_get TIMEOUT max_retries max_retries"

section \<open>addresses.py: the phone number of a mail-merge row\<close>

text \<open>
  The phone block of \<open>process_replacements\<close>. The argument is \<open>str(row['phone'])\<close>, or
  \<open>None\<close> when \<open>pd.notna\<close> fails.
\<close>

definition process_phone :: "pystr option \<Rightarrow> pystr" where
  "process_phone phone =
     (let phone_number = (case phone of Some p \<Rightarrow> strip p | None \<Rightarrow> []);
          phone_number = (if endswith phone_number (py ''.0'')
                          then take (length phone_number - 2) phone_number else phone_number);
          phone_number = (if startswith phone_number (py ''9'') \<and> length phone_number = 10
                          then py ''0'' @ phone_number else phone_number)
      in phone_number)"

section \<open>Cells, rows and the worksheet\<close>

text \<open>
  A cell value is empty, an integer or text (a formula is text that starts with \<open>=\<close>). A
  row lists its cells from column A; a row that holds no cell is the empty list. A sheet lists
  its rows from row 1 up to the row where the cursor of \<open>append\<close> stands, which is the last
  row that was appended or assigned. Reading outside a row gives the empty value, writing
  there creates the cells in between. Styles are not modelled: borders, fills and number
  formats never change a value.

  \<open>max_row\<close> is the last row that holds a cell, and 1 on a sheet without cells; the rows of
  the list after it are empty. \<open>delete_rows\<close> removes a row and puts the cursor back on
  the last row that holds a cell, so the rows without cells at the end go.
\<close>

datatype cell = CNone | CInt int | CStr pystr

type_synonym row = "cell list"
type_synonym sheet = "row list"

definition trim :: "sheet \<Rightarrow> sheet" where
  "trim s = rev (dropWhile (\<lambda>r. r = []) (rev s))"

definition max_row :: "sheet \<Rightarrow> nat" where
  "max_row s = (if trim s = [] then 1 else length (trim s))"

definition max_column :: "sheet \<Rightarrow> nat" where
  "max_column s = fold max (map length s) 1"

definition row_value :: "row \<Rightarrow> nat \<Rightarrow> cell" where
  "row_value xs c = (if 1 \<le> c \<and> c \<le> length xs then xs ! (c - 1) else CNone)"

definition cell_value :: "sheet \<Rightarrow> nat \<Rightarrow> nat \<Rightarrow> cell" where
  "cell_value s r c = (if 1 \<le> r \<and> r \<le> length s then row_value (s ! (r - 1)) c else CNone)"

definition pad :: "nat \<Rightarrow> 'a \<Rightarrow> 'a list \<Rightarrow> 'a list" where
  "pad n x xs = xs @ replicate (n - length xs) x"

definition set_cell :: "sheet \<Rightarrow> nat \<Rightarrow> nat \<Rightarrow> cell \<Rightarrow> sheet" where
  "set_cell s r c v =
     (let s' = pad r [] s; row' = pad c CNone (s' ! (r - 1))
      in s'[r - 1 := row'[c - 1 := v]])"

definition append_row :: "sheet \<Rightarrow> row \<Rightarrow> sheet" where
  "append_row s r = s @ [r]"

definition delete_rows :: "sheet \<Rightarrow> nat \<Rightarrow> sheet" where
  "delete_rows s idx = trim (take (idx - 1) s @ drop idx s)"

definition insert_rows :: "sheet \<Rightarrow> nat \<Rightarrow> sheet" where
  "insert_rows s idx = (if idx \<le> length s then take (idx - 1) s @ [[]] @ drop (idx - 1) s else s)"

section \<open>Orders as the API delivers them\<close>

record billing_info =
  first_name :: pystr
  last_name :: pystr
  phone :: pystr
  email :: pystr

record shipping_info =
  state :: pystr
  city :: pystr
  address_1 :: pystr
  postcode :: pystr

record line_item =
  sku :: pystr
  item_name :: pystr
  quantity :: int
  item_total :: pystr

text \<open>
  \<open>date_paid\<close> is \<open>None\<close> for JSON null. \<open>shipping_lines\<close> keeps the \<open>total\<close> string of
  each shipping line; a metadata value is a JSON scalar, written as the cell it becomes.
\<close>

record order =
  order_id :: int
  status :: pystr
  date_paid :: "pystr option"
  customer_id :: int
  billing :: billing_info
  shipping :: shipping_info
  order_total :: pystr
  discount_total :: pystr
  shipping_lines :: "pystr list"
  meta_data :: "(pystr \<times> cell) list"
  line_items :: "line_item list"

text \<open>
  Library functions whose definition lies outside the repository, or that compute with floats,
  are parameters: \<open>int(s)\<close>; the integer part of the float sum of the shipping totals that
  pass the digit test; \<open>round(n / 1.10)\<close>; \<open>datetime.fromisoformat\<close>;
  \<open>jdatetime.date.fromgregorian\<close>. Dates are (year, month, day).
\<close>

record pylib =
  py_int :: "pystr \<Rightarrow> error + int"
  shipping_sum :: "pystr list \<Rightarrow> error + int"
  round_div_110 :: "int \<Rightarrow> int"
  fromisoformat :: "pystr \<Rightarrow> error + (int \<times> int \<times> int)"
  fromgregorian :: "int \<times> int \<times> int \<Rightarrow> int \<times> int \<times> int"

section \<open>fetchWCOrders.py: helpers\<close>

definition get_key_by_value :: "(pystr \<times> pystr) list \<Rightarrow> cell \<Rightarrow> pystr option" where
  "get_key_by_value d v =
     (case v of CStr x \<Rightarrow> map_option fst (find (\<lambda>kv. snd kv = x) d) | _ \<Rightarrow> None)"

definition find_meta_value :: "order \<Rightarrow> pystr \<Rightarrow> cell" where
  "find_meta_value data target_key =
     (case find (\<lambda>kv. fst kv = target_key) (meta_data data) of
        Some kv \<Rightarrow> snd kv | None \<Rightarrow> CNone)"

text \<open>\<open>d.get(k)\<close> as a cell: the label, or empty when the key is missing.\<close>

definition dict_get :: "(pystr \<times> pystr) list \<Rightarrow> pystr \<Rightarrow> cell" where
  "dict_get d k = (case map_of d k of Some v \<Rightarrow> CStr v | None \<Rightarrow> CNone)"

definition convert_to_jalali ::
  "pylib \<Rightarrow> pystr option \<Rightarrow> error + ((int \<times> int \<times> int) \<times> pystr)" where
  "convert_to_jalali lib date_string =
     (case date_string of
        None \<Rightarrow> Inl AttributeError
      | Some s \<Rightarrow>
          (case split_on 84 s of
             [date_part, time_part] \<Rightarrow>
               (case fromisoformat lib date_part of
                  Inl e \<Rightarrow> Inl e
                | Inr gregorian_date \<Rightarrow> Inr (fromgregorian lib gregorian_date, time_part))
           | _ \<Rightarrow> Inl ValueError))"

definition STATES_get :: "pystr \<Rightarrow> pystr" where
  "STATES_get k = (case map_of STATES k of Some v \<Rightarrow> v | None \<Rightarrow> k)"

definition create_order_row :: "pylib \<Rightarrow> lang \<Rightarrow> order \<Rightarrow> error + row" where
  "create_order_row lib l order =
     (case shipping_sum lib (shipping_lines order) of
        Inl e \<Rightarrow> Inl e
      | Inr shipping_total \<Rightarrow>
     (case (if date_paid order = None \<or> date_paid order = Some [] then Inr []
            else (case convert_to_jalali lib (date_paid order) of
                    Inl e \<Rightarrow> Inl e
                  | Inr ((y, m, d), time_part) \<Rightarrow>
                      Inr (str_int y @ py ''/'' @ fmt02d m @ py ''/'' @ fmt02d d))) of
        Inl e \<Rightarrow> Inl e
      | Inr date_part \<Rightarrow>
     (let address = translate arabic_to_english
                      (translate persian_to_english (address_1 (shipping order)))
      in case find_meta_value order (py ''_billing_field_529'') of
        CNone \<Rightarrow> Inl AttributeError
      | CInt i \<Rightarrow> Inl AttributeError
      | CStr b \<Rightarrow>
     (let birthday = translate arabic_to_english (translate persian_to_english b)
      in case py_int lib (order_total order) of
        Inl e \<Rightarrow> Inl e
      | Inr total_i \<Rightarrow>
     (case py_int lib (discount_total order) of
        Inl e \<Rightarrow> Inl e
      | Inr discount \<Rightarrow>
          Inr [CInt (order_id order),
               dict_get (STATUS l) (status order),
               CStr date_part,
               CInt (customer_id order),
               CStr (first_name (billing order) @ py '' '' @ last_name (billing order)),
               CStr (phone (billing order)),
               CStr (email (billing order)),
               CStr birthday,
               CStr (STATES_get (state (shipping order)) @ [1548, 32] @ city (shipping order)),
               CStr address,
               CStr (postcode (shipping order)),
               CInt (total_i * 10),
               CInt (shipping_total * 10),
               CInt (discount * 10),
               CInt (round_div_110 lib (discount * 10)),
               CStr [], CStr [], CStr [], CStr [], CStr [],
               find_meta_value order (py ''datei''),
               find_meta_value order (py ''marsule''),
               CStr [], CStr [],
               find_meta_value order (py ''datedeliver'')])))))"

text \<open>\<open>apply_styles\<close> parses the discount once more and changes no value.\<close>

definition apply_styles :: "pylib \<Rightarrow> sheet \<Rightarrow> nat \<Rightarrow> order \<Rightarrow> error + sheet" where
  "apply_styles lib s row_index order =
     (case py_int lib (discount_total order) of Inl e \<Rightarrow> Inl e | Inr d \<Rightarrow> Inr s)"

fun write_products :: "pylib \<Rightarrow> sheet \<Rightarrow> line_item list \<Rightarrow> error + sheet" where
  "write_products lib s [] = Inr s"
| "write_products lib s (it # items) =
     (case py_int lib (item_total it) of
        Inl e \<Rightarrow> Inl e
      | Inr t \<Rightarrow>
          write_products lib
            (append_row s (replicate 15 (CStr []) @
               [CStr (sku it), CStr (item_name it), CInt (quantity it), CInt (t * 10)]))
            items)"

fun is_int :: "cell \<Rightarrow> bool" where
  "is_int (CInt i) = True"
| "is_int c = False"

definition count_integer_rows :: "sheet \<Rightarrow> pystr \<Rightarrow> nat \<Rightarrow> nat \<Rightarrow> error + nat" where
  "count_integer_rows s column_name start_row stop_row =
     (let headers = (if s = [] then [] else hd s)
      in if CStr column_name \<notin> set headers then Inl ValueError
         else let column_index = index_of headers (CStr column_name) + 1
              in Inr (length (filter (\<lambda>r. is_int (cell_value s r column_index))
                                [start_row ..< Suc stop_row])))"

definition col_list :: "string list" where
  "col_list = [''address'', ''postcode'', ''total'', ''shipping'', ''discount'',
     ''sepidar_discount'', ''item_total'', ''com_postal_payment'', ''com_postage'']"

definition sum_formula :: "nat \<Rightarrow> nat \<Rightarrow> nat \<Rightarrow> pystr" where
  "sum_formula column_index from_row last_row =
     py ''=SUM('' @ get_column_letter column_index @ str_nat from_row @ py '':''
       @ get_column_letter column_index @ str_nat last_row @ py '')''"

definition add_sum_row :: "lang \<Rightarrow> sheet \<Rightarrow> nat \<Rightarrow> nat \<Rightarrow> error + (sheet \<times> nat)" where
  "add_sum_row l s from_row last_row =
     (let sum_row_index = last_row + 1;
          s1 = insert_rows s sum_row_index;
          s2 = set_cell s1 sum_row_index (col ''address'') (CStr (item (TEXT l) ''sum_month_orders_row_text''))
      in case count_integer_rows s2 (item (COLUMN_HEADERS l) ''order_id'') from_row last_row of
           Inl e \<Rightarrow> Inl e
         | Inr lastmonth_orders_count \<Rightarrow>
             (let s3 = set_cell s2 sum_row_index (col ''postcode'') (CInt (int lastmonth_orders_count));
                  s4 = fold (\<lambda>column_name t.
                               if column_name = ''address'' \<or> column_name = ''postcode'' then t
                               else set_cell t sum_row_index (col column_name)
                                      (CStr (sum_formula (col column_name) from_row last_row)))
                         col_list s3
              in Inr (s4, sum_row_index)))"

definition find_sum_rows :: "lang \<Rightarrow> sheet \<Rightarrow> error + nat list" where
  "find_sum_rows l s =
     (if max_row s < 2 then Inr []
      else if max_column s < col ''address'' then Inl IndexError
      else Inr (filter (\<lambda>r. cell_value s r (col ''address'')
                              = CStr (item (TEXT l) ''sum_month_orders_row_text''))
                  [2 ..< Suc (max_row s)]))"

definition calculate_totals :: "nat list \<Rightarrow> string \<Rightarrow> pystr" where
  "calculate_totals sum_rows key =
     py ''='' @ concat (case map (\<lambda>i. get_column_letter (col key) @ str_nat i) sum_rows of
                          [] \<Rightarrow> []
                        | p # ps \<Rightarrow> p # map (\<lambda>q. py '' + '' @ q) ps)"

definition append_totals :: "lang \<Rightarrow> sheet \<Rightarrow> (string \<Rightarrow> pystr) \<Rightarrow> sheet" where
  "append_totals l s col_total =
     append_row s
       (replicate 9 (CStr []) @
        [CStr (item (TEXT l) ''sum_all_orders_row_text''), CStr (col_total ''postcode''),
         CStr (col_total ''total''), CStr (col_total ''shipping''), CStr (col_total ''discount''),
         CStr (col_total ''sepidar_discount''), CStr [], CStr [], CStr [],
         CStr (col_total ''item_total''), CStr [], CStr [], CStr [],
         CStr (col_total ''com_postal_payment''), CStr (col_total ''com_postage'')])"

section \<open>write_to_excel\<close>

text \<open>
  The dictionary \<open>existing_order_ids\<close>, in insertion order; a later entry for the same key
  replaces an earlier one, so a lookup takes the last.
\<close>

definition existing_order_ids :: "sheet \<Rightarrow> (cell \<times> nat) list" where
  "existing_order_ids s =
     filter (\<lambda>kv. fst kv \<noteq> CNone)
       (map (\<lambda>r. (cell_value s r (col ''order_id''), r)) [2 ..< Suc (max_row s)])"

definition lookup_row :: "(cell \<times> nat) list \<Rightarrow> int \<Rightarrow> nat option" where
  "lookup_row existing oid = map_of (rev existing) (CInt oid)"

text \<open>The variables the loop over the orders carries from one order to the next.\<close>

record loop_state =
  sheet_of :: sheet
  last_order_jalali_month :: "pystr option"
  from_row :: nat
  sum_row_indices :: "nat list"
  new_orders_count :: nat

text \<open>The update of one of the four cells of an existing row: written only when it differs.\<close>

definition update_cell :: "sheet \<Rightarrow> nat \<Rightarrow> string \<Rightarrow> cell \<Rightarrow> sheet" where
  "update_cell s row_index key current =
     (if current \<noteq> cell_value s row_index (col key) then set_cell s row_index (col key) current
      else s)"

definition update_status :: "lang \<Rightarrow> sheet \<Rightarrow> nat \<Rightarrow> pystr \<Rightarrow> sheet" where
  "update_status l s row_index current_status =
     (let lang_existing_status = cell_value s row_index (col ''status'');
          existing_status = get_key_by_value (STATUS l) lang_existing_status
      in if existing_status \<noteq> Some current_status
         then set_cell s row_index (col ''status'') (dict_get (STATUS l) current_status)
         else s)"

definition update_existing :: "lang \<Rightarrow> sheet \<Rightarrow> nat \<Rightarrow> order \<Rightarrow> sheet" where
  "update_existing l s row_index order =
     (let s1 = update_status l s row_index (status order);
          s2 = update_cell s1 row_index ''datei'' (find_meta_value order (py ''datei''));
          s3 = update_cell s2 row_index ''tracking_code'' (find_meta_value order (py ''marsule''));
          s4 = update_cell s3 row_index ''delivery_date'' (find_meta_value order (py ''datedeliver''))
      in s4)"

definition com_postage_value :: "nat \<Rightarrow> pystr" where
  "com_postage_value row_index = py ''=M'' @ str_nat row_index @ py '' - W'' @ str_nat row_index"

text \<open>One pass of the body of \<open>for order in orders\<close>.\<close>

definition process_order ::
  "pylib \<Rightarrow> lang \<Rightarrow> (cell \<times> nat) list \<Rightarrow> loop_state \<Rightarrow> order \<Rightarrow> error + loop_state" where
  "process_order lib l existing st order =
     (case convert_to_jalali lib (date_paid order) of
        Inl e \<Rightarrow> Inl e
      | Inr ((y, m, d), time_part) \<Rightarrow>
     (let current_order_jalali_month = str_int y @ py ''-'' @ fmt02d m;
          last_month = (case last_order_jalali_month st of
                          None \<Rightarrow> current_order_jalali_month | Some lm \<Rightarrow> lm)
      in case lookup_row existing (order_id order) of
        Some row_index \<Rightarrow>
          Inr (st\<lparr>sheet_of := update_existing l (sheet_of st) row_index order,
                 last_order_jalali_month := Some current_order_jalali_month\<rparr>)
      | None \<Rightarrow>
     (case (if current_order_jalali_month \<noteq> last_month
            then (case add_sum_row l (sheet_of st) (from_row st) (max_row (sheet_of st)) of
                    Inl e \<Rightarrow> Inl e
                  | Inr (s', idx) \<Rightarrow>
                      Inr (s', max_row s' + 1, sum_row_indices st @ [idx]))
            else Inr (sheet_of st, from_row st, sum_row_indices st)) of
        Inl e \<Rightarrow> Inl e
      | Inr (s1, from_row', indices') \<Rightarrow>
     (case create_order_row lib l order of
        Inl e \<Rightarrow> Inl e
      | Inr order_row \<Rightarrow>
     (let s2 = append_row s1 order_row;
          row_index = max_row s2
      in case apply_styles lib s2 row_index order of
        Inl e \<Rightarrow> Inl e
      | Inr s3 \<Rightarrow>
     (case write_products lib s3 (line_items order) of
        Inl e \<Rightarrow> Inl e
      | Inr s4 \<Rightarrow>
          Inr \<lparr>sheet_of = set_cell s4 row_index (col ''com_postage'') (CStr (com_postage_value row_index)),
               last_order_jalali_month = Some current_order_jalali_month,
               from_row = from_row',
               sum_row_indices = indices',
               new_orders_count = new_orders_count st + 1\<rparr>))))))"

fun process_orders ::
  "pylib \<Rightarrow> lang \<Rightarrow> (cell \<times> nat) list \<Rightarrow> loop_state \<Rightarrow> order list \<Rightarrow> error + loop_state" where
  "process_orders lib l existing st [] = Inr st"
| "process_orders lib l existing st (order # orders) =
     (case process_order lib l existing st order of
        Inl e \<Rightarrow> Inl e
      | Inr st' \<Rightarrow> process_orders lib l existing st' orders)"

text \<open>
  Opening the workbook: a missing file gives a new, empty sheet, and a file that is read has
  its cursor on the last row that holds a cell. Then the header on a sheet whose
  \<open>max_row\<close> is 1, and the removal of the last two rows.
\<close>

definition open_sheet :: "lang \<Rightarrow> sheet option \<Rightarrow> sheet" where
  "open_sheet l file =
     (let s0 = (case file of None \<Rightarrow> [] | Some s \<Rightarrow> trim s);
          s1 = (if max_row s0 = 1 then append_row s0 (map (\<lambda>kv. CStr (snd kv)) (COLUMN_HEADERS l)) else s0)
      in if max_row s1 > 1
         then (let s2 = delete_rows s1 (max_row s1) in delete_rows s2 (max_row s2))
         else s1)"

text \<open>What follows the loop: the sum row of the last month and the row of all orders.\<close>

definition close_sheet :: "lang \<Rightarrow> sheet \<Rightarrow> error + sheet" where
  "close_sheet l s =
     (case find_sum_rows l s of
        Inl e \<Rightarrow> Inl e
      | Inr sum_rows \<Rightarrow>
          if sum_rows = [] then Inl IndexError
          else (case add_sum_row l s (last sum_rows + 1) (max_row s) of
                  Inl e \<Rightarrow> Inl e
                | Inr (s1, idx) \<Rightarrow>
                    (case find_sum_rows l s1 of
                       Inl e \<Rightarrow> Inl e
                     | Inr sum_rows' \<Rightarrow> Inr (append_totals l s1 (calculate_totals sum_rows')))))"

text \<open>
  The whole function: the result is the sheet that is saved, or the exception that leaves
  the file as it was.
\<close>

definition write_to_excel :: "pylib \<Rightarrow> lang \<Rightarrow> sheet option \<Rightarrow> order list \<Rightarrow> error + sheet" where
  "write_to_excel lib l excel_file orders =
     (let s = open_sheet l excel_file;
          existing = existing_order_ids s
      in case process_orders lib l existing
                \<lparr>sheet_of = s, last_order_jalali_month = None, from_row = 2,
                 sum_row_indices = [], new_orders_count = 0\<rparr> orders of
           Inl e \<Rightarrow> Inl e
         | Inr st \<Rightarrow> close_sheet l (sheet_of st))"

section \<open>The main block: filtering and sorting the fetched orders\<close>

definition kept :: "order \<Rightarrow> bool" where
  "kept order \<longleftrightarrow> status order \<noteq> py ''cancelled'' \<and> status order \<noteq> py ''pending''"

text \<open>The file after the run: unchanged when no order is left or when an exception ends the run.\<close>

definition main :: "pylib \<Rightarrow> lang \<Rightarrow> sheet option \<Rightarrow> order list \<Rightarrow> error + sheet option" where
  "main lib l excel_file all_orders =
     (let orders = filter kept all_orders
      in if orders \<noteq> []
         then (let orders = sort_key order_id orders
               in case write_to_excel lib l excel_file orders of
                    Inl e \<Rightarrow> Inl e
                  | Inr s \<Rightarrow> Inr (Some s))
         else Inr excel_file)"

text \<open>The batch that reaches \<open>write_to_excel\<close>.\<close>

definition main_orders :: "order list \<Rightarrow> order list" where
  "main_orders all_orders = sort_key order_id (filter kept all_orders)"

section \<open>A concrete library and concrete orders for running the model\<close>

text \<open>
  The library functions on the plain inputs an order usually carries: \<open>int\<close> of a string of
  ASCII digits, shipping totals without a fraction, dates written \<open>YYYY-MM-DD\<close>, the
  arithmetical Gregorian-to-Jalali conversion, and the nearest integer of \<open>n / 1.1\<close>
  (never a tie, since \<open>20 n\<close> is even and \<open>11 (2 k + 1)\<close> is odd).
\<close>

definition all_digits :: "pystr \<Rightarrow> bool" where
  "all_digits s \<longleftrightarrow> s \<noteq> [] \<and> list_all (\<lambda>c. 48 \<le> c \<and> c \<le> 57) s"

definition digits_value :: "pystr \<Rightarrow> int" where
  "digits_value s = fold (\<lambda>c n. 10 * n + int (c - 48)) s 0"

definition plain_int :: "pystr \<Rightarrow> error + int" where
  "plain_int s = (if all_digits s then Inr (digits_value s) else Inl ValueError)"

definition plain_date :: "pystr \<Rightarrow> error + (int \<times> int \<times> int)" where
  "plain_date s =
     (case split_on 45 s of
        [y, m, d] \<Rightarrow>
          if all_digits y \<and> all_digits m \<and> all_digits d
          then Inr (digits_value y, digits_value m, digits_value d) else Inl ValueError
      | _ \<Rightarrow> Inl ValueError)"

definition gregorian_to_jalali :: "int \<times> int \<times> int \<Rightarrow> int \<times> int \<times> int" where
  "gregorian_to_jalali g =
     (case g of (gy, gm, gd) \<Rightarrow>
        let g_d_m = [0, 31, 59, 90, 120, 151, 181, 212, 243, 273, 304, 334 :: int];
            gy2 = (if gm > 2 then gy + 1 else gy);
            days = 355666 + 365 * gy + (gy2 + 3) div 4 - (gy2 + 99) div 100 + (gy2 + 399) div 400
                     + gd + g_d_m ! nat (gm - 1);
            jy = - 1595 + 33 * (days div 12053);
            days = days mod 12053;
            jy = jy + 4 * (days div 1461);
            days = days mod 1461;
            jy = (if days > 365 then jy + (days - 1) div 365 else jy);
            days = (if days > 365 then (days - 1) mod 365 else days)
        in if days < 186 then (jy, 1 + days div 31, 1 + days mod 31)
           else (jy, 7 + (days - 186) div 30, 1 + (days - 186) mod 30))"

definition lib0 :: pylib where
  "lib0 = \<lparr>py_int = plain_int,
           shipping_sum = (\<lambda>ls. Inr (sum_list (map digits_value (filter all_digits ls)))),
           round_div_110 = (\<lambda>n. (20 * n + 11) div 22),
           fromisoformat = plain_date,
           fromgregorian = gregorian_to_jalali\<rparr>"

text \<open>
  An order with the given identifier, status, paid timestamp and metadata; every other field
  is the same small value.
\<close>

definition sample_order :: "int \<Rightarrow> string \<Rightarrow> string option \<Rightarrow> (pystr \<times> cell) list \<Rightarrow> order" where
  "sample_order i st paid meta =
     \<lparr>order_id = i, status = py st, date_paid = map_option py paid, customer_id = 7,
      billing = \<lparr>first_name = py ''A'', last_name = py ''B'', phone = py ''9120000000'',
                 email = py ''a@b.c''\<rparr>,
      shipping = \<lparr>state = py ''THR'', city = py ''T'', address_1 = py ''S 1'',
                  postcode = py ''1''\<rparr>,
      order_total = py ''1000'', discount_total = py ''100'', shipping_lines = [py ''50''],
      meta_data = meta, line_items = []\<rparr>"

definition birthday_meta :: "(pystr \<times> cell) list" where
  "birthday_meta = [(py ''_billing_field_529'', CStr (py ''1370/01/01''))]"

text \<open>
  Three orders paid on 2024-03-19, 2024-03-20 and 2024-04-25, that is in the Jalali months
  1402-12, 1403-01 and 1403-02. A first run on a missing file with the first two writes the
  ledger: header, order 1, sum row of 1402-12, order 2, sum row of 1403-01, row of all orders.
\<close>

definition order_a :: order where
  "order_a = sample_order 1 ''processing'' (Some ''2024-03-19T10:00:00'') birthday_meta"

definition order_b :: order where
  "order_b = sample_order 2 ''processing'' (Some ''2024-03-20T10:00:00'') birthday_meta"

definition order_c :: order where
  "order_c = sample_order 3 ''processing'' (Some ''2024-04-25T10:00:00'') birthday_meta"

text \<open>
  An order that has not been paid, so that the API delivers \<open>date_paid\<close> as null, and an
  order of 1402-12 whose customer is called \<open>Order ID\<close>.
\<close>

definition order_dateless :: order where
  "order_dateless = sample_order 4 ''on-hold'' None birthday_meta"

definition order_named :: order where
  "order_named = order_a\<lparr>billing := (billing order_a)\<lparr>first_name := py ''Order'', last_name := py ''ID''\<rparr>\<rparr>"

text \<open>
  The loop state at the start of a run on a sheet that holds a header cell only, and a small
  sheet with one order row.
\<close>

definition header_only :: loop_state where
  "header_only = \<lparr>sheet_of = [[CStr (py ''Order ID'')]], last_order_jalali_month = None, from_row = 2,
     sum_row_indices = [], new_orders_count = 0\<rparr>"

definition small_sheet :: sheet where
  "small_sheet = [[CStr (py ''Order ID''), CStr (py ''Status'')], [CInt 1, CStr (py ''On-Hold'')]]"

section \<open>Properties of fetch_page\<close>

text \<open>
  The requests of one call use the timeouts \<open>TIMEOUT, TIMEOUT + 5, ...\<close> in this order,
  one per attempt, from the attempt the count starts at.
\<close>

lemma fetch_attempts_timeouts:
  "n \<le> mr \<Longrightarrow> \<exists>k\<le>n. fst (fetch_attempts g T mr n) = map (\<lambda>a. T + 5 * int a) [mr - n ..< mr - n + k]"
proof (induction n)
  case 0
  then show ?case by simp
next
  case (Suc n)
  then obtain k where k: "k \<le> n" "fst (fetch_attempts g T mr n) = map (\<lambda>a. T + 5 * int a) [mr - n ..< mr - n + k]"
    by auto
  have one: "[T + 5 * int (mr - Suc n)] = map (\<lambda>a. T + 5 * int a) [mr - Suc n ..< mr - Suc n + 1]"
    by simp
  have more: "(T + 5 * int (mr - Suc n)) # fst (fetch_attempts g T mr n)
      = map (\<lambda>a. T + 5 * int a) [mr - Suc n ..< mr - Suc n + Suc k]"
  proof -
    define a where "a = mr - Suc n"
    have eq: "mr - n = Suc a" using Suc.prems by (simp add: a_def)
    have "[a ..< a + Suc k] = a # [Suc a ..< Suc a + k]"
      by (simp add: upt_conv_Cons)
    then show ?thesis using k(2) unfolding eq a_def[symmetric] by simp
  qed
  let ?ct = "T + 5 * int (mr - Suc n)"
  let ?res = "fetch_attempts g T mr (Suc n)"
  obtain ts r where tr: "fetch_attempts g T mr n = (ts, r)"
    by (cases "fetch_attempts g T mr n")
  have "fst ?res = [?ct] \<or> fst ?res = ?ct # fst (fetch_attempts g T mr n)"
    by (cases "g (mr - Suc n) ?ct") (simp_all add: Let_def tr)
  then show ?case
  proof
    assume a: "fst ?res = [?ct]"
    have "fst ?res = map (\<lambda>a. T + 5 * int a) [mr - Suc n ..< mr - Suc n + 1]"
      unfolding a by (rule one)
    moreover have "1 \<le> Suc n" by simp
    ultimately show ?thesis by blast
  next
    assume b: "fst ?res = ?ct # fst (fetch_attempts g T mr n)"
    have "fst ?res = map (\<lambda>a. T + 5 * int a) [mr - Suc n ..< mr - Suc n + Suc k]"
      unfolding b by (rule more)
    moreover have "Suc k \<le> Suc n" using k(1) by simp
    ultimately show ?thesis by blast
  qed
qed

text \<open>
  Claim C8. On a response timeout or a connection failure \<open>fetch_page\<close> retries, never
  beyond \<open>max_retries\<close> attempts, and attempt number \<open>a\<close> uses the timeout
  \<open>TIMEOUT + 5 a\<close>, so the timeouts grow strictly from the configured base in steps of 5.
  With the ceiling of 3: two timeouts followed by a success make exactly three requests and
  return the payload of the third; three timeouts or connection failures make three requests
  and return the empty list instead of raising.
\<close>

theorem fetch_page_retries:
  "(\<exists>k\<le>max_retries. fst (fetch_page h T max_retries) = map (\<lambda>a. T + 5 * int a) [0 ..< k])
   \<and> (g 0 T = Timeout \<and> g 1 (T + 5) = Timeout \<and> g 2 (T + 10) = Payload p
        \<longrightarrow> fetch_page g T 3 = ([T, T + 5, T + 10], Some p))
   \<and> ((\<forall>a<3. g' a (T + 5 * int a) = Timeout \<or> g' a (T + 5 * int a) = ConnectionError)
        \<longrightarrow> fetch_page g' T 3 = ([T, T + 5, T + 10], Some []))"
proof (intro conjI impI)
  show "\<exists>k\<le>max_retries. fst (fetch_page h T max_retries) = map (\<lambda>a. T + 5 * int a) [0 ..< k]"
    using fetch_attempts_timeouts[of max_retries max_retries h T] by (simp add: fetch_page_def)
next
  assume "g 0 T = Timeout \<and> g 1 (T + 5) = Timeout \<and> g 2 (T + 10) = Payload p"
  then show "fetch_page g T 3 = ([T, T + 5, T + 10], Some p)"
    by (simp add: fetch_page_def numeral_3_eq_3 numeral_2_eq_2 Let_def)
next
  assume a: "\<forall>a<3. g' a (T + 5 * int a) = Timeout \<or> g' a (T + 5 * int a) = ConnectionError"
  have "g' 0 T = Timeout \<or> g' 0 T = ConnectionError" using a[rule_format, of 0] by simp
  moreover have "g' 1 (T + 5) = Timeout \<or> g' 1 (T + 5) = ConnectionError" using a[rule_format, of 1] by simp
  moreover have "g' 2 (T + 10) = Timeout \<or> g' 2 (T + 10) = ConnectionError" using a[rule_format, of 2] by simp
  ultimately show "fetch_page g' T 3 = ([T, T + 5, T + 10], Some [])"
    by (auto simp add: fetch_page_def numeral_3_eq_3 numeral_2_eq_2 Let_def)
qed

theorem fetch_page_retries_witness:
  "fetch_page (\<lambda>a t. if a < 2 then Timeout else Payload [t]) 10 3 = ([10, 15, 20], Some [20])
   \<and> fetch_page (\<lambda>a t. if a = 1 then ConnectionError else (Timeout :: int response)) 10 3 = ([10, 15, 20], Some [])
   \<and> (\<exists>k\<le>3. fst (fetch_page (\<lambda>a t. (HTTPError :: int response)) 10 3) = map (\<lambda>a. 10 + 5 * int a) [0 ..< k])"
  using fetch_page_retries[of 3 "\<lambda>a t. HTTPError" 10 "\<lambda>a t. if a < 2 then Timeout else Payload [t]" "[20]"
      "\<lambda>a t. if a = 1 then ConnectionError else Timeout"]
  by (auto split: if_splits)

section \<open>Properties of the phone normalisation\<close>

lemma strip_padded:
  assumes "list_all is_space a" and "list_all is_space b"
    and "w = [] \<or> (\<not> is_space (hd w) \<and> \<not> is_space (last w))"
  shows "strip (a @ w @ b) = w"
proof (cases "w = []")
  case True
  have "list_all is_space (a @ b)" using assms(1,2) by simp
  then have d: "dropWhile is_space (a @ b) = []" by (simp add: dropWhile_eq_Nil_conv list_all_iff)
  show ?thesis by (simp only: strip_def True append_Nil d dropWhile.simps rev.simps)
next
  case False
  then have h: "\<not> is_space (hd w)" and l: "\<not> is_space (last w)" using assms(3) by auto
  have a: "\<forall>x \<in> set a. is_space x" using assms(1) by (simp add: list_all_iff)
  have b: "\<forall>x \<in> set (rev b). is_space x" using assms(2) by (simp add: list_all_iff)
  have "dropWhile is_space (a @ w @ b) = dropWhile is_space (w @ b)"
    by (rule dropWhile_append2) (use a in simp)
  also have "\<dots> = w @ b" using False h by (cases w) simp_all
  finally have 1: "dropWhile is_space (a @ w @ b) = w @ b" .
  have "dropWhile is_space (rev (w @ b)) = dropWhile is_space (rev b @ rev w)" by simp
  also have "\<dots> = dropWhile is_space (rev w)" by (rule dropWhile_append2) (use b in simp)
  also have "\<dots> = rev w" using False l by (cases w rule: rev_cases) simp_all
  finally show ?thesis by (simp add: strip_def 1)
qed

lemma phone_samples:
  "process_phone (Some (py ''9123456789'')) = py ''09123456789''"
  by (simp add: process_phone_def strip_def py_def is_space_def endswith_def startswith_def)

text \<open>
  Claim C6, as amended. The phone value is first stripped of the whitespace around it, then
  one trailing \<open>.0\<close> is removed. What remains, \<open>w\<close>, gets a leading 0 exactly when it is
  10 characters long and begins with 9; otherwise it is returned as it is, a 9-digit value
  included. The three cases cover every value: a value that ends with \<open>.0\<close> once it is
  stripped, a value that does not, and a value of whitespace only; a missing value gives the
  empty text. The input 9123456789 gives 09123456789.
\<close>

theorem process_phone_rule:
  assumes "list_all is_space a" and "list_all is_space b"
    and "w = [] \<or> \<not> is_space (hd w)"
  shows "process_phone (Some (a @ w @ py ''.0'' @ b))
           = (if length w = 10 \<and> startswith w (py ''9'') then py ''0'' @ w else w)
     \<and> (\<not> is_space (last w) \<and> \<not> endswith w (py ''.0'')
          \<longrightarrow> process_phone (Some (a @ w @ b))
                = (if length w = 10 \<and> startswith w (py ''9'') then py ''0'' @ w else w))
     \<and> process_phone (Some (a @ b)) = []
     \<and> process_phone None = []
     \<and> process_phone (Some (py ''9123456789'')) = py ''09123456789''"
proof -
  let ?r = "if length w = 10 \<and> startswith w (py ''9'') then py ''0'' @ w else w"
  have "w @ py ''.0'' = [] \<or> (\<not> is_space (hd (w @ py ''.0'')) \<and> \<not> is_space (last (w @ py ''.0'')))"
    using assms(3) by (cases w) (simp_all add: py_def is_space_def)
  then have "strip (a @ (w @ py ''.0'') @ b) = w @ py ''.0''"
    by (rule strip_padded[OF assms(1,2)])
  then have s1: "strip (a @ w @ py ''.0'' @ b) = w @ py ''.0''" by simp
  have e: "endswith (w @ py ''.0'') (py ''.0'')" by (simp add: endswith_def py_def)
  have t: "take (length (w @ py ''.0'') - 2) (w @ py ''.0'') = w" by (simp add: py_def)
  have 1: "process_phone (Some (a @ w @ py ''.0'' @ b)) = ?r"
    unfolding process_phone_def Let_def option.case s1 using e t
    by (simp only: if_True) auto
  have 2: "process_phone (Some (a @ w @ b)) = ?r"
    if "\<not> is_space (last w)" "\<not> endswith w (py ''.0'')"
  proof -
    have "w = [] \<or> (\<not> is_space (hd w) \<and> \<not> is_space (last w))" using assms(3) that(1) by auto
    then have "strip (a @ w @ b) = w" by (rule strip_padded[OF assms(1,2)])
    then show ?thesis using that(2) by (simp add: process_phone_def Let_def)
  qed
  have "strip (a @ [] @ b) = []" by (rule strip_padded[OF assms(1,2)]) simp
  then have 3: "process_phone (Some (a @ b)) = []"
    by (simp add: process_phone_def Let_def endswith_def startswith_def py_def)
  have 4: "process_phone None = []"
    by (simp add: process_phone_def Let_def endswith_def startswith_def py_def)
  show ?thesis using 1 2 3 4 phone_samples by blast
qed

theorem process_phone_rule_witness:
  "process_phone (Some (py ''  9123456789.0 '')) = py ''09123456789''
   \<and> process_phone (Some (py ''  9123456789 '')) = py ''09123456789''
   \<and> process_phone (Some (py ''   '')) = []"
  using process_phone_rule[of "py ''  ''" "py '' ''" "py ''9123456789''"]
  by (simp add: py_def startswith_def endswith_def is_space_def)

text \<open>The claim as stated fails: a 9-digit value that begins with 9 gets no leading 0.\<close>

theorem process_phone_nine_digits_counterexample:
  "length (py ''912345678'') = 9 \<and> startswith (py ''912345678'') (py ''9'')
   \<and> process_phone (Some (py ''912345678'')) = py ''912345678''
   \<and> process_phone (Some (py ''912345678'')) \<noteq> py ''0912345678''"
  by (simp add: process_phone_def strip_def py_def is_space_def endswith_def startswith_def)

section \<open>Properties of the main block\<close>

text \<open>
  Claim C9. An order whose status is cancelled or pending is not in the batch that is sorted
  and passed to \<open>write_to_excel\<close>; that batch holds exactly the other fetched orders, and
  the file after the run is the one a run without the cancelled and pending orders leaves.
\<close>

theorem main_drops_cancelled_pending:
  "(\<forall>order \<in> set all_orders.
       status order = py ''cancelled'' \<or> status order = py ''pending''
       \<longrightarrow> order \<notin> set (main_orders all_orders))
   \<and> set (main_orders all_orders)
       = {order \<in> set all_orders. status order \<noteq> py ''cancelled'' \<and> status order \<noteq> py ''pending''}
   \<and> main lib l excel_file all_orders
       = (if main_orders all_orders = [] then Inr excel_file
          else map_sum id Some (write_to_excel lib l excel_file (main_orders all_orders)))
   \<and> main lib l excel_file all_orders = main lib l excel_file (filter kept all_orders)"
proof -
  have s: "set (main_orders all_orders)
       = {order \<in> set all_orders. status order \<noteq> py ''cancelled'' \<and> status order \<noteq> py ''pending''}"
    by (auto simp add: main_orders_def kept_def)
  have e: "(main_orders all_orders = []) = (filter kept all_orders = [])"
    unfolding main_orders_def by (metis set_sort set_empty)
  have m: "main lib l excel_file all_orders
       = (if main_orders all_orders = [] then Inr excel_file
          else map_sum id Some (write_to_excel lib l excel_file (main_orders all_orders)))"
    unfolding e by (simp add: main_def main_orders_def Let_def split: sum.splits)
  have f: "main lib l excel_file all_orders = main lib l excel_file (filter kept all_orders)"
    by (simp add: main_def)
  show ?thesis using s m f by blast
qed

theorem main_drops_cancelled_pending_witness:
  "sample_order 1 ''cancelled'' None [] \<notin> set (main_orders
      [sample_order 2 ''processing'' None [], sample_order 1 ''cancelled'' None []])
   \<and> main_orders [sample_order 2 ''processing'' None [], sample_order 1 ''cancelled'' None []]
       = [sample_order 2 ''processing'' None []]"
proof -
  have c: "status (sample_order 1 ''cancelled'' None []) = py ''cancelled''"
    by (simp add: sample_order_def)
  have "sample_order 1 ''cancelled'' None [] \<notin> set (main_orders
      [sample_order 2 ''processing'' None [], sample_order 1 ''cancelled'' None []])"
    using main_drops_cancelled_pending[of
        "[sample_order 2 ''processing'' None [], sample_order 1 ''cancelled'' None []]"] c
    by simp
  moreover have "main_orders [sample_order 2 ''processing'' None [], sample_order 1 ''cancelled'' None []]
       = [sample_order 2 ''processing'' None []]"
    by (simp add: main_orders_def kept_def sample_order_def py_def)
  ultimately show ?thesis by simp
qed

section \<open>Orders without the birthday field\<close>

lemma find_meta_value_absent:
  "find (\<lambda>kv. fst kv = k) (meta_data order) = None \<Longrightarrow> find_meta_value order k = CNone"
  by (simp add: find_meta_value_def)

lemma create_order_row_no_birthday:
  assumes "find_meta_value order (py ''_billing_field_529'') = CNone"
  shows "\<exists>e. create_order_row lib l order = Inl e"
  using assms by (auto simp add: create_order_row_def Let_def split: sum.splits prod.splits)

lemma process_order_no_birthday:
  assumes "find_meta_value order (py ''_billing_field_529'') = CNone"
    and "lookup_row existing (order_id order) = None"
  shows "\<exists>e. process_order lib l existing st order = Inl e"
proof -
  obtain e where "create_order_row lib l order = Inl e"
    using create_order_row_no_birthday[OF assms(1)] by blast
  then show ?thesis using assms(2)
    by (auto simp add: process_order_def Let_def split: sum.splits prod.splits)
qed

lemma process_orders_no_birthday:
  assumes "find_meta_value order (py ''_billing_field_529'') = CNone"
    and "lookup_row existing (order_id order) = None"
    and "order \<in> set orders"
  shows "\<exists>e. process_orders lib l existing st orders = Inl e"
  using assms(3)
proof (induction orders arbitrary: st)
  case Nil
  then show ?case by simp
next
  case (Cons o1 orders)
  show ?case
  proof (cases "process_order lib l existing st o1")
    case (Inl e)
    then show ?thesis by simp
  next
    case (Inr st')
    then have "o1 \<noteq> order" using process_order_no_birthday[OF assms(1,2), of lib l st] by auto
    then have "order \<in> set orders" using Cons.prems by auto
    then show ?thesis using Cons.IH Inr by simp
  qed
qed

text \<open>
  Claim C10. For an order whose metadata has no entry with key \<open>_billing_field_529\<close>,
  \<open>find_meta_value\<close> gives None and \<open>create_order_row\<close> never returns a row: it raises,
  and when the shipping sum and the date conversion before it succeed the exception is the
  AttributeError of \<open>None.translate\<close>. A batch that holds such an order, with an
  identifier that is not yet in the ledger, ends in an exception.
\<close>

theorem missing_birthday_aborts:
  assumes "find (\<lambda>kv. fst kv = py ''_billing_field_529'') (meta_data order) = None"
  shows "find_meta_value order (py ''_billing_field_529'') = CNone
    \<and> (\<exists>e. create_order_row lib l order = Inl e)
    \<and> (shipping_sum lib (shipping_lines order) = Inr t \<and> date_paid order = None
         \<longrightarrow> create_order_row lib l order = Inl AttributeError)
    \<and> (shipping_sum lib (shipping_lines order) = Inr t \<and> convert_to_jalali lib (date_paid order) = Inr j
         \<longrightarrow> create_order_row lib l order = Inl AttributeError)
    \<and> (order \<in> set orders
         \<and> lookup_row (existing_order_ids (open_sheet l excel_file)) (order_id order) = None
         \<longrightarrow> (\<exists>e. write_to_excel lib l excel_file orders = Inl e))"
proof -
  have n: "find_meta_value order (py ''_billing_field_529'') = CNone"
    using assms by (rule find_meta_value_absent)
  have a: "shipping_sum lib (shipping_lines order) = Inr t \<and> date_paid order = None
         \<longrightarrow> create_order_row lib l order = Inl AttributeError"
    using n by (simp add: create_order_row_def Let_def)
  have b: "shipping_sum lib (shipping_lines order) = Inr t \<and> convert_to_jalali lib (date_paid order) = Inr j
         \<longrightarrow> create_order_row lib l order = Inl AttributeError"
    using n by (auto simp add: create_order_row_def Let_def split: prod.splits)
  have c: "order \<in> set orders
         \<and> lookup_row (existing_order_ids (open_sheet l excel_file)) (order_id order) = None
         \<longrightarrow> (\<exists>e. write_to_excel lib l excel_file orders = Inl e)"
  proof
    assume h: "order \<in> set orders
         \<and> lookup_row (existing_order_ids (open_sheet l excel_file)) (order_id order) = None"
    obtain e where "process_orders lib l (existing_order_ids (open_sheet l excel_file))
         \<lparr>sheet_of = open_sheet l excel_file, last_order_jalali_month = None, from_row = 2,
                 sum_row_indices = [], new_orders_count = 0\<rparr> orders = Inl e"
      using process_orders_no_birthday[OF n] h by blast
    then show "\<exists>e. write_to_excel lib l excel_file orders = Inl e"
      by (simp add: write_to_excel_def Let_def)
  qed
  show ?thesis using n create_order_row_no_birthday[OF n] a b c by blast
qed

theorem missing_birthday_aborts_witness:
  "create_order_row lib0 En (sample_order 5 ''processing'' (Some ''2024-03-20T10:00:00'') []) = Inl AttributeError
   \<and> (\<exists>e. write_to_excel lib0 En None
         [sample_order 5 ''processing'' (Some ''2024-03-20T10:00:00'') []] = Inl e)"
proof -
  let ?o = "sample_order 5 ''processing'' (Some ''2024-03-20T10:00:00'') []"
  have 1: "find (\<lambda>kv. fst kv = py ''_billing_field_529'') (meta_data ?o) = None"
    by (simp add: sample_order_def)
  have 2: "shipping_sum lib0 (shipping_lines ?o) = Inr 50"
    by (simp add: sample_order_def lib0_def all_digits_def digits_value_def py_def)
  have 3: "convert_to_jalali lib0 (date_paid ?o) = Inr ((1403, 1, 1), py ''10:00:00'')"
    by code_simp
  have 4: "lookup_row (existing_order_ids (open_sheet En None)) (order_id ?o) = None"
    by code_simp
  show ?thesis
    using missing_birthday_aborts[OF 1, where lib = lib0 and t = 50 and l = En
        and j = "((1403, 1, 1), py ''10:00:00'')" and orders = "[?o]" and excel_file = None] 2 3 4
    by simp
qed

section \<open>Reading and writing cells\<close>

lemma length_pad: "length (pad n x xs) = max n (length xs)"
  by (simp add: pad_def)

lemma length_set_cell: "length (set_cell s r c v) = max r (length s)"
  by (simp add: set_cell_def Let_def length_pad)

lemma row_value_Suc: "row_value xs (Suc i) = (if i < length xs then xs ! i else CNone)"
  by (auto simp add: row_value_def)

lemma row_value_0: "row_value xs 0 = CNone"
  by (simp add: row_value_def)

lemma cell_value_Suc:
  "cell_value s (Suc i) c = (if i < length s then row_value (s ! i) c else CNone)"
  by (auto simp add: cell_value_def)

lemma cell_value_0: "cell_value s 0 c = CNone"
  by (simp add: cell_value_def)

lemma row_value_pad: "row_value (pad n CNone xs) c = row_value xs c"
  by (cases c) (auto simp add: row_value_Suc row_value_0 pad_def nth_append)

lemma row_value_update:
  "i < length xs \<Longrightarrow> row_value (xs[i := v]) c = (if c = Suc i then v else row_value xs c)"
  by (cases c) (auto simp add: row_value_Suc row_value_0 nth_list_update)

lemma row_value_Nil: "row_value [] c = CNone"
  by (cases c) (simp_all add: row_value_Suc row_value_0)

lemma cell_value_pad_rows: "cell_value (pad n [] s) r c = cell_value s r c"
  by (cases r) (auto simp add: cell_value_Suc cell_value_0 pad_def nth_append row_value_Nil)

lemma cell_value_list_update:
  "i < length s \<Longrightarrow> cell_value (s[i := row]) r c = (if r = Suc i then row_value row c else cell_value s r c)"
  by (cases r) (auto simp add: cell_value_Suc cell_value_0 nth_list_update)

lemma cell_value_set_cell_Suc:
  "cell_value (set_cell s (Suc i) (Suc j) v) r' c'
     = (if r' = Suc i \<and> c' = Suc j then v else cell_value s r' c')"
proof -
  let ?s' = "pad (Suc i) [] s"
  let ?row = "pad (Suc j) CNone (?s' ! i)"
  have sc: "set_cell s (Suc i) (Suc j) v = ?s'[i := ?row[j := v]]"
    by (simp add: set_cell_def Let_def)
  have lr: "i < length ?s'" by (simp add: length_pad)
  have lc: "j < length ?row" by (simp add: length_pad)
  have rv: "row_value (?row[j := v]) c'' = (if c'' = Suc j then v else row_value (?s' ! i) c'')" for c''
    using row_value_update[OF lc, of v c''] by (simp add: row_value_pad)
  have old: "cell_value ?s' (Suc i) c' = row_value (?s' ! i) c'"
    using lr by (simp add: cell_value_Suc)
  have "cell_value (set_cell s (Suc i) (Suc j) v) r' c'
      = (if r' = Suc i then row_value (?row[j := v]) c' else cell_value ?s' r' c')"
    unfolding sc by (rule cell_value_list_update[OF lr])
  also have "\<dots> = (if r' = Suc i \<and> c' = Suc j then v else cell_value ?s' r' c')"
    by (simp add: rv old)
  finally show ?thesis by (simp add: cell_value_pad_rows)
qed

lemma cell_value_set_cell:
  assumes "1 \<le> r" "1 \<le> c"
  shows "cell_value (set_cell s r c v) r' c' = (if r' = r \<and> c' = c then v else cell_value s r' c')"
proof -
  obtain i j where "r = Suc i" "c = Suc j"
    using assms by (metis One_nat_def Suc_le_D)
  then show ?thesis by (simp only: cell_value_set_cell_Suc)
qed

lemma col_values:
  "col ''order_id'' = 1" "col ''status'' = 2" "col ''address'' = 10" "col ''postcode'' = 11"
  "col ''total'' = 12" "col ''shipping'' = 13" "col ''discount'' = 14" "col ''sepidar_discount'' = 15"
  "col ''item_total'' = 19" "col ''datei'' = 21" "col ''tracking_code'' = 22"
  "col ''com_postal_payment'' = 23" "col ''com_postage'' = 24" "col ''delivery_date'' = 25"
  by (simp_all add: col_def column_keys_def ENGLISH_COLUMN_HEADERS_def)

section \<open>Rows that hold a cell\<close>

lemma trim_snoc: "trim (s @ [row]) = (if row = [] then trim s else s @ [row])"
  by (simp add: trim_def)

lemma trim_Nil: "trim [] = []"
  by (simp add: trim_def)

lemma length_trim_le: "length (trim s) \<le> length s"
  by (induction s rule: rev_induct) (simp_all add: trim_snoc trim_Nil)

lemma trim_full: "s \<noteq> [] \<Longrightarrow> last s \<noteq> [] \<Longrightarrow> trim s = s"
  by (cases s rule: rev_cases) (simp_all add: trim_snoc)

lemma trim_last: "trim s \<noteq> [] \<Longrightarrow> last (trim s) \<noteq> []"
  by (induction s rule: rev_induct) (auto simp add: trim_snoc trim_Nil split: if_splits)

lemma trim_trim: "trim (trim s) = trim s"
  by (cases "trim s = []") (simp_all add: trim_Nil trim_full trim_last)

lemma trim_take: "trim s = take (length (trim s)) s"
proof (induction s rule: rev_induct)
  case Nil
  then show ?case by (simp add: trim_Nil)
next
  case (snoc row s)
  show ?case
  proof (cases "row = []")
    case True
    have "take (length (trim s)) (s @ [row]) = take (length (trim s)) s"
      using length_trim_le[of s] by simp
    then show ?thesis using snoc True by (simp add: trim_snoc)
  next
    case False
    then show ?thesis by (simp add: trim_snoc)
  qed
qed

lemma cell_value_trim: "cell_value (trim s) r c = cell_value s r c"
proof (induction s rule: rev_induct)
  case Nil
  then show ?case by (simp add: trim_Nil)
next
  case (snoc row s)
  show ?case
  proof (cases "row = []")
    case True
    have "cell_value (s @ [row]) r c = cell_value s r c"
      using True by (cases r) (auto simp add: cell_value_Suc cell_value_0 nth_append row_value_Nil)
    then show ?thesis using snoc True by (simp add: trim_snoc)
  next
    case False
    then show ?thesis by (simp add: trim_snoc)
  qed
qed

lemma max_row_le: "2 \<le> max_row s \<Longrightarrow> max_row s \<le> length s"
  using length_trim_le[of s] by (auto simp add: max_row_def split: if_splits)

lemma max_row_full: "s \<noteq> [] \<Longrightarrow> last s \<noteq> [] \<Longrightarrow> max_row s = length s"
  by (simp add: max_row_def trim_full)

lemma max_row_Nil: "max_row [] = 1"
  by (simp add: max_row_def trim_Nil)

lemma max_row_append: "row \<noteq> [] \<Longrightarrow> max_row (s @ [row]) = Suc (length s)"
  by (simp add: max_row_def trim_snoc)

text \<open>No row after \<open>max_row\<close> holds a cell, and none at all on a sheet without cells.\<close>

lemma cell_value_above_max_row:
  assumes "max_row s < r"
  shows "cell_value s r c = CNone"
proof -
  have "length (trim s) < r" using assms by (auto simp add: max_row_def split: if_splits)
  then have "cell_value (trim s) r c = CNone" by (simp add: cell_value_def)
  then show ?thesis by (simp add: cell_value_trim)
qed

lemma cell_value_no_cells:
  assumes "trim s = []"
  shows "cell_value s r c = CNone"
proof -
  have "cell_value [] r c = CNone" by (cases r) (simp_all add: cell_value_Suc cell_value_0)
  then have "cell_value (trim s) r c = CNone" using assms by simp
  then show ?thesis by (simp add: cell_value_trim)
qed

lemma cell_row_le_max_row:
  assumes "cell_value s r c \<noteq> CNone"
  shows "r \<le> max_row s \<and> r \<le> length s"
proof -
  have "\<not> max_row s < r" using assms cell_value_above_max_row by blast
  moreover have "r \<le> length s" using assms by (auto simp add: cell_value_def split: if_splits)
  ultimately show ?thesis by simp
qed

lemma last_row_holds_cell:
  assumes "length s = r" and "cell_value s r c \<noteq> CNone"
  shows "s \<noteq> [] \<and> last s \<noteq> []"
proof -
  have r: "1 \<le> r" "r \<le> length s" using assms by (auto simp add: cell_value_def split: if_splits)
  then have ne: "s \<noteq> []" by auto
  have "row_value (s ! (r - 1)) c \<noteq> CNone" using assms(2) r by (simp add: cell_value_def)
  then have "s ! (r - 1) \<noteq> []" using row_value_Nil[of c] by auto
  moreover have "last s = s ! (r - 1)" using ne assms(1) by (simp add: last_conv_nth)
  ultimately show ?thesis using ne by simp
qed

lemma max_row_by_cell:
  assumes "length s = r" and "cell_value s r c \<noteq> CNone"
  shows "max_row s = length s"
  using last_row_holds_cell[OF assms] by (simp add: max_row_full)

lemma delete_last_row:
  assumes "s \<noteq> []" "last s \<noteq> []"
  shows "delete_rows s (max_row s) = trim (butlast s)"
proof -
  have "max_row s = length s" using assms by (rule max_row_full)
  then show ?thesis using assms(1) by (simp add: delete_rows_def butlast_conv_take)
qed

section \<open>The index of existing orders\<close>

lemma lookup_upto:
  fixes f :: "nat \<Rightarrow> cell"
  assumes "k \<noteq> CNone"
  shows "map_of (rev (filter (\<lambda>kv. fst kv \<noteq> CNone) (map (\<lambda>r. (f r, r)) [2 ..< Suc n]))) k = Some r
     \<longleftrightarrow> 2 \<le> r \<and> r \<le> n \<and> f r = k \<and> (\<forall>r'. r < r' \<and> r' \<le> n \<longrightarrow> f r' \<noteq> k)"
proof (induction n arbitrary: r)
  case 0
  then show ?case by simp
next
  case (Suc n)
  show ?case
  proof (cases "2 \<le> Suc n")
    case False
    then show ?thesis by auto
  next
    case True
    then have up: "[2 ..< Suc (Suc n)] = [2 ..< Suc n] @ [Suc n]" by simp
    show ?thesis
    proof (cases "f (Suc n) = k")
      case True
      then have "map_of (rev (filter (\<lambda>kv. fst kv \<noteq> CNone) (map (\<lambda>r. (f r, r)) [2 ..< Suc (Suc n)]))) k = Some (Suc n)"
        unfolding up using assms by simp
      moreover have "(2 \<le> r \<and> r \<le> Suc n \<and> f r = k \<and> (\<forall>r'. r < r' \<and> r' \<le> Suc n \<longrightarrow> f r' \<noteq> k)) \<longleftrightarrow> r = Suc n"
      proof
        assume a: "2 \<le> r \<and> r \<le> Suc n \<and> f r = k \<and> (\<forall>r'. r < r' \<and> r' \<le> Suc n \<longrightarrow> f r' \<noteq> k)"
        show "r = Suc n"
        proof (rule ccontr)
          assume "r \<noteq> Suc n"
          then have "r < Suc n \<and> Suc n \<le> Suc n" using a by simp
          then have "f (Suc n) \<noteq> k" using a by blast
          then show False using True by simp
        qed
      next
        assume "r = Suc n"
        then show "2 \<le> r \<and> r \<le> Suc n \<and> f r = k \<and> (\<forall>r'. r < r' \<and> r' \<le> Suc n \<longrightarrow> f r' \<noteq> k)"
          using True \<open>2 \<le> Suc n\<close> by auto
      qed
      ultimately show ?thesis by auto
    next
      case False
      then have "map_of (rev (filter (\<lambda>kv. fst kv \<noteq> CNone) (map (\<lambda>r. (f r, r)) [2 ..< Suc (Suc n)]))) k
          = map_of (rev (filter (\<lambda>kv. fst kv \<noteq> CNone) (map (\<lambda>r. (f r, r)) [2 ..< Suc n]))) k"
        unfolding up by simp
      moreover have "(2 \<le> r \<and> r \<le> Suc n \<and> f r = k \<and> (\<forall>r'. r < r' \<and> r' \<le> Suc n \<longrightarrow> f r' \<noteq> k))
          \<longleftrightarrow> (2 \<le> r \<and> r \<le> n \<and> f r = k \<and> (\<forall>r'. r < r' \<and> r' \<le> n \<longrightarrow> f r' \<noteq> k))"
        using False by (auto simp add: le_Suc_eq)
      ultimately show ?thesis using Suc.IH by simp
    qed
  qed
qed

lemma lookup_row_Some:
  "lookup_row (existing_order_ids s) oid = Some r
     \<longleftrightarrow> 2 \<le> r \<and> r \<le> length s \<and> cell_value s r 1 = CInt oid
         \<and> (\<forall>r'. r < r' \<and> r' \<le> length s \<longrightarrow> cell_value s r' 1 \<noteq> CInt oid)"
proof -
  have k: "CInt oid \<noteq> CNone" by simp
  have "lookup_row (existing_order_ids s) oid = Some r
     \<longleftrightarrow> 2 \<le> r \<and> r \<le> max_row s \<and> cell_value s r 1 = CInt oid
         \<and> (\<forall>r'. r < r' \<and> r' \<le> max_row s \<longrightarrow> cell_value s r' 1 \<noteq> CInt oid)"
    unfolding lookup_row_def existing_order_ids_def col_values
    by (rule lookup_upto[OF k])
  moreover have "(2 \<le> r \<and> r \<le> max_row s \<and> cell_value s r 1 = CInt oid
         \<and> (\<forall>r'. r < r' \<and> r' \<le> max_row s \<longrightarrow> cell_value s r' 1 \<noteq> CInt oid))
     \<longleftrightarrow> (2 \<le> r \<and> r \<le> length s \<and> cell_value s r 1 = CInt oid
         \<and> (\<forall>r'. r < r' \<and> r' \<le> length s \<longrightarrow> cell_value s r' 1 \<noteq> CInt oid))"
  proof
    assume a: "2 \<le> r \<and> r \<le> max_row s \<and> cell_value s r 1 = CInt oid
         \<and> (\<forall>r'. r < r' \<and> r' \<le> max_row s \<longrightarrow> cell_value s r' 1 \<noteq> CInt oid)"
    then have "cell_value s r 1 \<noteq> CNone" by simp
    then have rl: "r \<le> length s" using cell_row_le_max_row by blast
    have "cell_value s r' 1 \<noteq> CInt oid" if "r < r'" for r'
    proof (cases "r' \<le> max_row s")
      case True
      then show ?thesis using a that by blast
    next
      case False
      then have "cell_value s r' 1 = CNone" by (simp add: cell_value_above_max_row)
      then show ?thesis by simp
    qed
    then show "2 \<le> r \<and> r \<le> length s \<and> cell_value s r 1 = CInt oid
         \<and> (\<forall>r'. r < r' \<and> r' \<le> length s \<longrightarrow> cell_value s r' 1 \<noteq> CInt oid)"
      using a rl by blast
  next
    assume a: "2 \<le> r \<and> r \<le> length s \<and> cell_value s r 1 = CInt oid
         \<and> (\<forall>r'. r < r' \<and> r' \<le> length s \<longrightarrow> cell_value s r' 1 \<noteq> CInt oid)"
    then have "cell_value s r 1 \<noteq> CNone" by simp
    then have rm: "r \<le> max_row s" using cell_row_le_max_row by blast
    then have "max_row s \<le> length s" using a max_row_le[of s] by simp
    then show "2 \<le> r \<and> r \<le> max_row s \<and> cell_value s r 1 = CInt oid
         \<and> (\<forall>r'. r < r' \<and> r' \<le> max_row s \<longrightarrow> cell_value s r' 1 \<noteq> CInt oid)"
      using a rm by auto
  qed
  ultimately show ?thesis by simp
qed

lemma lookup_row_None:
  "lookup_row (existing_order_ids s) oid = None
     \<longleftrightarrow> (\<forall>r. 2 \<le> r \<and> r \<le> length s \<longrightarrow> cell_value s r 1 \<noteq> CInt oid)"
proof
  assume n: "lookup_row (existing_order_ids s) oid = None"
  show "\<forall>r. 2 \<le> r \<and> r \<le> length s \<longrightarrow> cell_value s r 1 \<noteq> CInt oid"
  proof (rule ccontr)
    assume "\<not> (\<forall>r. 2 \<le> r \<and> r \<le> length s \<longrightarrow> cell_value s r 1 \<noteq> CInt oid)"
    then have ex: "\<exists>r. 2 \<le> r \<and> r \<le> length s \<and> cell_value s r 1 = CInt oid" by blast
    define m where "m = (GREATEST r. 2 \<le> r \<and> r \<le> length s \<and> cell_value s r 1 = CInt oid)"
    have "2 \<le> m \<and> m \<le> length s \<and> cell_value s m 1 = CInt oid"
      unfolding m_def using ex by (rule GreatestI_ex_nat[where b = "length s"]) simp
    moreover have "\<forall>r'. m < r' \<and> r' \<le> length s \<longrightarrow> cell_value s r' 1 \<noteq> CInt oid"
    proof (intro allI impI notI)
      fix r' assume a: "m < r' \<and> r' \<le> length s" and b: "cell_value s r' 1 = CInt oid"
      then have "2 \<le> r' \<and> r' \<le> length s \<and> cell_value s r' 1 = CInt oid"
        using calculation by auto
      then have "r' \<le> m" unfolding m_def by (rule Greatest_le_nat[where b = "length s"]) simp
      then show False using a by simp
    qed
    ultimately have "lookup_row (existing_order_ids s) oid = Some m"
      by (simp add: lookup_row_Some)
    then show False using n by simp
  qed
next
  assume a: "\<forall>r. 2 \<le> r \<and> r \<le> length s \<longrightarrow> cell_value s r 1 \<noteq> CInt oid"
  show "lookup_row (existing_order_ids s) oid = None"
  proof (cases "lookup_row (existing_order_ids s) oid")
    case None
    then show ?thesis .
  next
    case (Some r)
    then have "2 \<le> r \<and> r \<le> length s \<and> cell_value s r 1 = CInt oid"
      by (simp only: lookup_row_Some)
    then show ?thesis using a by blast
  qed
qed

section \<open>Updating an existing row\<close>

lemma col_pos: "1 \<le> col key"
  by (simp add: col_def)

lemma distinct_STATUS: "distinct (map fst (STATUS l))"
  by (cases l) (simp_all add: STATUS_def ENGLISH_STATUS_def PERSIAN_STATUS_def py_def)

lemma get_key_by_value_dict_get:
  assumes "distinct (map fst d)" and "get_key_by_value d v = Some k"
  shows "dict_get d k = v"
proof -
  obtain x where v: "v = CStr x" and f: "map_option fst (find (\<lambda>kv. snd kv = x) d) = Some k"
    using assms(2) by (cases v) (simp_all add: get_key_by_value_def)
  then obtain kv where kv: "find (\<lambda>kv. snd kv = x) d = Some kv" "fst kv = k" by auto
  then have "kv \<in> set d" "snd kv = x"
    by (auto simp add: find_Some_iff in_set_conv_nth)
  then have "(k, x) \<in> set d" using kv(2) by (cases kv) auto
  then have "map_of d k = Some x" using assms(1) by simp
  then show ?thesis by (simp add: dict_get_def v)
qed

lemma cell_value_update_cell:
  assumes "1 \<le> r"
  shows "cell_value (update_cell s r key v) r' c'
     = (if r' = r \<and> c' = col key then v else cell_value s r' c')"
  using assms col_pos[of key] by (auto simp add: update_cell_def cell_value_set_cell)

lemma cell_value_update_status:
  assumes "1 \<le> r"
  shows "cell_value (update_status l s r st) r' c'
     = (if r' = r \<and> c' = col ''status'' then dict_get (STATUS l) st else cell_value s r' c')"
proof (cases "get_key_by_value (STATUS l) (cell_value s r (col ''status'')) = Some st")
  case True
  then have "dict_get (STATUS l) st = cell_value s r (col ''status'')"
    using get_key_by_value_dict_get[OF distinct_STATUS] by blast
  then show ?thesis using True by (auto simp add: update_status_def Let_def)
next
  case False
  then show ?thesis using assms col_pos[of "''status''"]
    by (simp add: update_status_def Let_def cell_value_set_cell)
qed

lemma length_update_cell: "r \<le> length s \<Longrightarrow> length (update_cell s r key v) = length s"
  by (simp add: update_cell_def length_set_cell)

lemma length_update_status: "r \<le> length s \<Longrightarrow> length (update_status l s r st) = length s"
  by (simp add: update_status_def Let_def length_set_cell)

lemma length_update_existing: "r \<le> length s \<Longrightarrow> length (update_existing l s r order) = length s"
  by (simp add: update_existing_def Let_def length_update_cell length_update_status)

lemma cell_value_update_existing:
  assumes "1 \<le> r"
  shows "cell_value (update_existing l s r order) r' c'
     = (if r' = r \<and> c' = col ''status'' then dict_get (STATUS l) (status order)
        else if r' = r \<and> c' = col ''datei'' then find_meta_value order (py ''datei'')
        else if r' = r \<and> c' = col ''tracking_code'' then find_meta_value order (py ''marsule'')
        else if r' = r \<and> c' = col ''delivery_date'' then find_meta_value order (py ''datedeliver'')
        else cell_value s r' c')"
  using assms
  by (simp add: update_existing_def Let_def cell_value_update_cell cell_value_update_status col_values)

lemma process_order_existing:
  assumes "lookup_row existing (order_id order) = Some row_index"
    and "convert_to_jalali lib (date_paid order) = Inr ((y, m, d), tp)"
  shows "process_order lib l existing st order
     = Inr (st\<lparr>sheet_of := update_existing l (sheet_of st) row_index order,
               last_order_jalali_month := Some (str_int y @ py ''-'' @ fmt02d m)\<rparr>)"
  using assms by (simp add: process_order_def Let_def)

text \<open>
  Claim C4. When the identifier of an order is found in the ledger, at the row \<open>row_index\<close>
  that holds it in the first column, the pass of the loop for this order returns normally
  whenever the paid date converts, and it changes no cell other than the status, dispatch
  date, tracking code and delivery date cells of that row: every other cell of the sheet reads
  the same before and after, no row is added, and the bookkeeping of the sum rows is untouched.
\<close>

theorem upsert_changes_four_cells:
  assumes "lookup_row (existing_order_ids s0) (order_id order) = Some row_index"
  shows "2 \<le> row_index \<and> row_index \<le> length s0
     \<and> cell_value s0 row_index (col ''order_id'') = CInt (order_id order)
     \<and> (\<forall>j. convert_to_jalali lib (date_paid order) = Inr j
           \<longrightarrow> (\<exists>st'. process_order lib l (existing_order_ids s0) st order = Inr st'))
     \<and> (\<forall>st'. process_order lib l (existing_order_ids s0) st order = Inr st' \<longrightarrow>
           (\<forall>r c. \<not> (r = row_index \<and> c \<in> {col ''status'', col ''datei'', col ''tracking_code'',
                                              col ''delivery_date''})
                  \<longrightarrow> cell_value (sheet_of st') r c = cell_value (sheet_of st) r c)
           \<and> (row_index \<le> length (sheet_of st) \<longrightarrow> length (sheet_of st') = length (sheet_of st))
           \<and> from_row st' = from_row st \<and> sum_row_indices st' = sum_row_indices st
           \<and> new_orders_count st' = new_orders_count st)"
proof -
  have r: "2 \<le> row_index \<and> row_index \<le> length s0 \<and> cell_value s0 row_index 1 = CInt (order_id order)"
    using assms by (simp only: lookup_row_Some)
  then have r1: "1 \<le> row_index" by simp
  have total: "\<forall>j. convert_to_jalali lib (date_paid order) = Inr j
           \<longrightarrow> (\<exists>st'. process_order lib l (existing_order_ids s0) st order = Inr st')"
  proof (intro allI impI)
    fix j assume "convert_to_jalali lib (date_paid order) = Inr j"
    then obtain y m d tp where "convert_to_jalali lib (date_paid order) = Inr ((y, m, d), tp)"
      by (cases j) auto
    then show "\<exists>st'. process_order lib l (existing_order_ids s0) st order = Inr st'"
      using process_order_existing[OF assms] by blast
  qed
  have frame: "\<forall>st'. process_order lib l (existing_order_ids s0) st order = Inr st' \<longrightarrow>
           (\<forall>r c. \<not> (r = row_index \<and> c \<in> {col ''status'', col ''datei'', col ''tracking_code'',
                                              col ''delivery_date''})
                  \<longrightarrow> cell_value (sheet_of st') r c = cell_value (sheet_of st) r c)
           \<and> (row_index \<le> length (sheet_of st) \<longrightarrow> length (sheet_of st') = length (sheet_of st))
           \<and> from_row st' = from_row st \<and> sum_row_indices st' = sum_row_indices st
           \<and> new_orders_count st' = new_orders_count st"
  proof (intro allI impI)
    fix st' assume p: "process_order lib l (existing_order_ids s0) st order = Inr st'"
    then obtain y m d tp where c: "convert_to_jalali lib (date_paid order) = Inr ((y, m, d), tp)"
      by (cases "convert_to_jalali lib (date_paid order)") (auto simp add: process_order_def)
    have st': "st' = st\<lparr>sheet_of := update_existing l (sheet_of st) row_index order,
               last_order_jalali_month := Some (str_int y @ py ''-'' @ fmt02d m)\<rparr>"
      using process_order_existing[OF assms c, of l st] p by simp
    show "(\<forall>r c. \<not> (r = row_index \<and> c \<in> {col ''status'', col ''datei'', col ''tracking_code'',
                                              col ''delivery_date''})
                  \<longrightarrow> cell_value (sheet_of st') r c = cell_value (sheet_of st) r c)
           \<and> (row_index \<le> length (sheet_of st) \<longrightarrow> length (sheet_of st') = length (sheet_of st))
           \<and> from_row st' = from_row st \<and> sum_row_indices st' = sum_row_indices st
           \<and> new_orders_count st' = new_orders_count st"
      unfolding st' using r1
      by (auto simp add: cell_value_update_existing length_update_existing)
  qed
  show ?thesis using r total frame by (simp add: col_values)
qed

section \<open>Rows appended for a new order\<close>

lemma write_products_appends:
  "write_products lib s items = Inr s' \<Longrightarrow>
     \<exists>rows. s' = s @ rows \<and> (\<forall>row \<in> set rows. length row = 19 \<and> row_value row 1 = CStr [] \<and> row_value row 10 = CStr [])"
proof (induction items arbitrary: s)
  case Nil
  then show ?case by simp
next
  case (Cons it items)
  from Cons.prems obtain t where t: "py_int lib (item_total it) = Inr t"
    by (cases "py_int lib (item_total it)") simp_all
  let ?row = "replicate 15 (CStr []) @ [CStr (sku it), CStr (item_name it), CInt (quantity it), CInt (t * 10)]"
  have "write_products lib (s @ [?row]) items = Inr s'"
    using Cons.prems t by (simp add: append_row_def)
  then obtain rows where rows: "s' = (s @ [?row]) @ rows"
      "\<forall>row \<in> set rows. length row = 19 \<and> row_value row 1 = CStr [] \<and> row_value row 10 = CStr []"
    using Cons.IH by blast
  have r: "length ?row = 19 \<and> row_value ?row 1 = CStr [] \<and> row_value ?row 10 = CStr []"
    by (simp add: row_value_def nth_append)
  show ?case
    by (rule exI[of _ "?row # rows"]) (use rows r in simp)
qed

lemma create_order_row_shape:
  assumes "create_order_row lib l order = Inr row"
  shows "length row = 25
    \<and> row_value row 1 = CInt (order_id order)
    \<and> row_value row 2 = dict_get (STATUS l) (status order)
    \<and> row_value row 10 = CStr (translate arabic_to_english (translate persian_to_english (address_1 (shipping order))))
    \<and> row_value row 21 = find_meta_value order (py ''datei'')
    \<and> row_value row 22 = find_meta_value order (py ''marsule'')
    \<and> row_value row 25 = find_meta_value order (py ''datedeliver'')
    \<and> (\<exists>d. py_int lib (discount_total order) = Inr d)"
  using assms
  by (auto simp add: create_order_row_def Let_def row_value_def
           split: sum.splits prod.splits cell.splits if_splits)

lemma take_set_cell:
  assumes "n < r" "n \<le> length s"
  shows "take n (set_cell s r c v) = take n s"
proof -
  have "take n (set_cell s r c v) = take n (pad r [] s)"
    using assms by (simp add: set_cell_def Let_def)
  also have "\<dots> = take n s" using assms by (simp add: pad_def)
  finally show ?thesis .
qed

lemma set_cell_last_struct:
  assumes "length t = Suc n"
  shows "length (set_cell t (Suc n) c v) = Suc n \<and> take n (set_cell t (Suc n) c v) = take n t"
  using assms by (simp add: length_set_cell take_set_cell)

lemma fold_set_cell_struct:
  assumes "length t = Suc n"
  shows "length (fold (\<lambda>cn t. if P cn then t else set_cell t (Suc n) (C cn) (F cn)) cols t) = Suc n
     \<and> take n (fold (\<lambda>cn t. if P cn then t else set_cell t (Suc n) (C cn) (F cn)) cols t) = take n t"
  using assms
proof (induction cols arbitrary: t)
  case Nil
  then show ?case by simp
next
  case (Cons cn cols)
  let ?t' = "if P cn then t else set_cell t (Suc n) (C cn) (F cn)"
  have l: "length ?t' = Suc n" and tk: "take n ?t' = take n t"
    using Cons.prems set_cell_last_struct[OF Cons.prems] by auto
  show ?case using Cons.IH[OF l] tk by simp
qed

lemma insert_rows_beyond: "length s < idx \<Longrightarrow> insert_rows s idx = s"
  by (simp add: insert_rows_def)

lemma hd_take: "0 < n \<Longrightarrow> hd (take n s) = hd s"
  by (cases s; cases n) simp_all

lemma add_sum_row_struct:
  assumes "s \<noteq> []" and "add_sum_row l s from (max_row s) = Inr (s', idx)"
    and "last s \<noteq> []"
  shows "idx = Suc (length s) \<and> length s' = Suc (length s) \<and> take (length s) s' = s"
proof -
  let ?n = "length s"
  have m: "max_row s = ?n" by (rule max_row_full[OF assms(1) assms(3)])
  let ?s2 = "set_cell s (Suc ?n) (col ''address'') (CStr (item (TEXT l) ''sum_month_orders_row_text''))"
  have s2: "length ?s2 = Suc ?n" "take ?n ?s2 = s"
    by (simp_all add: length_set_cell take_set_cell)
  obtain cnt where cnt: "count_integer_rows ?s2 (item (COLUMN_HEADERS l) ''order_id'') from ?n = Inr cnt"
    using assms(2) unfolding add_sum_row_def m
    by (cases "count_integer_rows ?s2 (item (COLUMN_HEADERS l) ''order_id'') from ?n")
       (simp_all add: Let_def insert_rows_beyond)
  let ?s3 = "set_cell ?s2 (Suc ?n) (col ''postcode'') (CInt (int cnt))"
  have s3: "length ?s3 = Suc ?n" "take ?n ?s3 = s"
    using s2 by (simp_all add: length_set_cell take_set_cell)
  let ?s4 = "fold (\<lambda>column_name t.
                 if column_name = ''address'' \<or> column_name = ''postcode'' then t
                 else set_cell t (Suc ?n) (col column_name)
                        (CStr (sum_formula (col column_name) from ?n)))
             col_list ?s3"
  have s4: "length ?s4 = Suc ?n \<and> take ?n ?s4 = take ?n ?s3"
    by (rule fold_set_cell_struct[OF s3(1)])
  have "s' = ?s4 \<and> idx = Suc ?n"
    using assms(2) cnt unfolding add_sum_row_def m
    by (auto simp add: Let_def insert_rows_beyond)
  then show ?thesis using s4 s3 by simp
qed

lemma cell_value_beyond: "length s < r \<Longrightarrow> cell_value s r c = CNone"
  by (simp add: cell_value_def)

lemma cell_value_take:
  "take n s' = s \<Longrightarrow> n \<le> length s' \<Longrightarrow> r \<le> n \<Longrightarrow> cell_value s' r c = cell_value s r c"
  by (cases r) (auto simp add: cell_value_Suc cell_value_0)

lemma cell_value_append_left: "r \<le> length s \<Longrightarrow> cell_value (s @ t) r c = cell_value s r c"
  by (cases r) (auto simp add: cell_value_Suc cell_value_0 nth_append)

lemma cell_value_append_right:
  "length s < r \<Longrightarrow> cell_value (s @ t) r c = cell_value t (r - length s) c"
  by (cases r) (auto simp add: cell_value_Suc cell_value_0 nth_append Suc_diff_le)

lemma cell_value_single: "cell_value [row] r c = (if r = 1 then row_value row c else CNone)"
  by (cases r) (auto simp add: cell_value_Suc cell_value_0)

text \<open>The cells of a sum row, column by column.\<close>

lemma add_sum_row_cells:
  assumes "s \<noteq> []" and "add_sum_row l s from (max_row s) = Inr (s', idx)"
    and "last s \<noteq> []"
  shows "\<exists>cnt. count_integer_rows
            (set_cell s (Suc (length s)) (col ''address'') (CStr (item (TEXT l) ''sum_month_orders_row_text'')))
            (item (COLUMN_HEADERS l) ''order_id'') from (length s) = Inr cnt
     \<and> (\<forall>r c. cell_value s' r c =
          (if r = Suc (length s) then
             (if c = 10 then CStr (item (TEXT l) ''sum_month_orders_row_text'')
              else if c = 11 then CInt (int cnt)
              else if c \<in> {12, 13, 14, 15, 19, 23, 24} then CStr (sum_formula c from (length s))
              else CNone)
           else cell_value s r c))"
proof -
  let ?n = "length s"
  have m: "max_row s = ?n" by (rule max_row_full[OF assms(1) assms(3)])
  let ?s2 = "set_cell s (Suc ?n) (col ''address'') (CStr (item (TEXT l) ''sum_month_orders_row_text''))"
  obtain cnt where cnt: "count_integer_rows ?s2 (item (COLUMN_HEADERS l) ''order_id'') from ?n = Inr cnt"
    using assms(2) unfolding add_sum_row_def m
    by (cases "count_integer_rows ?s2 (item (COLUMN_HEADERS l) ''order_id'') from ?n")
       (simp_all add: Let_def insert_rows_beyond)
  have s': "s' = fold (\<lambda>column_name t.
                 if column_name = ''address'' \<or> column_name = ''postcode'' then t
                 else set_cell t (Suc ?n) (col column_name)
                        (CStr (sum_formula (col column_name) from ?n)))
             col_list (set_cell ?s2 (Suc ?n) (col ''postcode'') (CInt (int cnt)))"
    using assms(2) cnt unfolding add_sum_row_def m
    by (auto simp add: Let_def insert_rows_beyond)
  have "\<forall>r c. cell_value s' r c =
          (if r = Suc ?n then
             (if c = 10 then CStr (item (TEXT l) ''sum_month_orders_row_text'')
              else if c = 11 then CInt (int cnt)
              else if c \<in> {12, 13, 14, 15, 19, 23, 24} then CStr (sum_formula c from ?n)
              else CNone)
           else cell_value s r c)"
    unfolding s' col_list_def
    by (simp add: col_values cell_value_set_cell cell_value_beyond)
  then show ?thesis using cnt by blast
qed

lemma fold_set_cell_length:
  "length t \<le> length (fold (\<lambda>cn t. if P cn then t else set_cell t r (C cn) (F cn)) cols t)"
proof (induction cols arbitrary: t)
  case Nil
  then show ?case by simp
next
  case (Cons cn cols)
  let ?t' = "if P cn then t else set_cell t r (C cn) (F cn)"
  have "length t \<le> length ?t'" by (simp add: length_set_cell)
  also have "\<dots> \<le> length (fold (\<lambda>cn t. if P cn then t else set_cell t r (C cn) (F cn)) cols ?t')"
    by (rule Cons.IH)
  finally show ?case by simp
qed

lemma add_sum_row_length:
  assumes "add_sum_row l s from last_row = Inr (s', idx)"
  shows "length s \<le> length s'"
proof -
  let ?i = "Suc last_row"
  let ?s2 = "set_cell (insert_rows s ?i) ?i (col ''address'') (CStr (item (TEXT l) ''sum_month_orders_row_text''))"
  have a: "length s \<le> length ?s2" by (simp add: length_set_cell insert_rows_def)
  obtain cnt where cnt: "count_integer_rows ?s2 (item (COLUMN_HEADERS l) ''order_id'') from last_row = Inr cnt"
    using assms unfolding add_sum_row_def
    by (cases "count_integer_rows ?s2 (item (COLUMN_HEADERS l) ''order_id'') from last_row")
       (simp_all add: Let_def)
  let ?s3 = "set_cell ?s2 ?i (col ''postcode'') (CInt (int cnt))"
  have b: "length ?s2 \<le> length ?s3" by (simp add: length_set_cell)
  have "s' = fold (\<lambda>column_name t.
                 if column_name = ''address'' \<or> column_name = ''postcode'' then t
                 else set_cell t ?i (col column_name)
                        (CStr (sum_formula (col column_name) from last_row)))
             col_list ?s3"
    using assms cnt by (auto simp add: add_sum_row_def Let_def)
  then have "length ?s3 \<le> length s'" by (simp only: fold_set_cell_length)
  then show ?thesis using a b by linarith
qed

lemma process_order_new_Inr:
  assumes "process_order lib l existing st order = Inr st'"
    and "lookup_row existing (order_id order) = None"
  shows "\<exists>s1 row prods.
          (s1 = sheet_of st \<and> from_row st' = from_row st
             \<or> (\<exists>idx. add_sum_row l (sheet_of st) (from_row st) (max_row (sheet_of st)) = Inr (s1, idx)
                    \<and> from_row st' = max_row s1 + 1))
          \<and> create_order_row lib l order = Inr row
          \<and> write_products lib (s1 @ [row]) (line_items order) = Inr (s1 @ [row] @ prods)
          \<and> (\<forall>r \<in> set prods. length r = 19 \<and> row_value r 1 = CStr [] \<and> row_value r 10 = CStr [])
          \<and> sheet_of st' = set_cell (s1 @ [row] @ prods) (Suc (length s1)) (col ''com_postage'')
                              (CStr (com_postage_value (Suc (length s1))))"
proof -
  obtain y m d tp where c: "convert_to_jalali lib (date_paid order) = Inr ((y, m, d), tp)"
    using assms(1)
    by (cases "convert_to_jalali lib (date_paid order)") (auto simp add: process_order_def)
  let ?cur = "str_int y @ py ''-'' @ fmt02d m"
  let ?last = "case last_order_jalali_month st of None \<Rightarrow> ?cur | Some lm \<Rightarrow> lm"
  let ?pre = "if ?cur \<noteq> ?last
            then (case add_sum_row l (sheet_of st) (from_row st) (max_row (sheet_of st)) of
                    Inl e \<Rightarrow> Inl e
                  | Inr (s', idx) \<Rightarrow> Inr (s', max_row s' + 1, sum_row_indices st @ [idx]))
            else Inr (sheet_of st, from_row st, sum_row_indices st)"
  obtain s1 fr ind where pre: "?pre = Inr (s1, fr, ind)"
    using assms c by (cases ?pre) (auto simp add: process_order_def Let_def)
  obtain row where row: "create_order_row lib l order = Inr row"
    using assms c pre
    by (cases "create_order_row lib l order") (auto simp add: process_order_def Let_def)
  obtain s3 where s3: "apply_styles lib (s1 @ [row]) (max_row (s1 @ [row])) order = Inr s3"
    using assms c pre row
    by (cases "apply_styles lib (s1 @ [row]) (max_row (s1 @ [row])) order")
       (auto simp add: process_order_def Let_def append_row_def)
  then have s3eq: "s3 = s1 @ [row]"
    by (auto simp add: apply_styles_def split: sum.splits)
  obtain s4 where s4: "write_products lib (s1 @ [row]) (line_items order) = Inr s4"
    using assms c pre row s3 s3eq
    by (cases "write_products lib (s1 @ [row]) (line_items order)")
       (auto simp add: process_order_def Let_def append_row_def)
  obtain prods where prods: "s4 = (s1 @ [row]) @ prods"
      "\<forall>r \<in> set prods. length r = 19 \<and> row_value r 1 = CStr [] \<and> row_value r 10 = CStr []"
    using write_products_appends[OF s4] by blast
  have rne: "row \<noteq> []" using create_order_row_shape[OF row] by auto
  have st': "sheet_of st' = set_cell s4 (Suc (length s1)) (col ''com_postage'')
                              (CStr (com_postage_value (Suc (length s1))))"
      "from_row st' = fr"
    using assms c pre row s3 s3eq s4
    by (auto simp add: process_order_def Let_def append_row_def max_row_append[OF rne])
  have which: "s1 = sheet_of st \<and> fr = from_row st
             \<or> (\<exists>idx. add_sum_row l (sheet_of st) (from_row st) (max_row (sheet_of st)) = Inr (s1, idx)
                    \<and> fr = max_row s1 + 1)"
    using pre by (auto split: if_splits sum.splits prod.splits)
  show ?thesis
    using which row s4 prods st' by (intro exI[of _ s1] exI[of _ row] exI[of _ prods]) simp
qed

lemma process_order_new_length:
  assumes "process_order lib l existing st order = Inr st'"
    and "lookup_row existing (order_id order) = None"
  obtains s1 row prods where
    "length (sheet_of st) \<le> length s1"
    "create_order_row lib l order = Inr row"
    "\<forall>r \<in> set prods. length r = 19 \<and> row_value r 1 = CStr [] \<and> row_value r 10 = CStr []"
    "sheet_of st' = set_cell (s1 @ [row] @ prods) (Suc (length s1)) (col ''com_postage'')
                              (CStr (com_postage_value (Suc (length s1))))"
proof -
  obtain s1 row prods where a:
      "s1 = sheet_of st \<and> from_row st' = from_row st
             \<or> (\<exists>idx. add_sum_row l (sheet_of st) (from_row st) (max_row (sheet_of st)) = Inr (s1, idx)
                    \<and> from_row st' = max_row s1 + 1)"
      "create_order_row lib l order = Inr row"
      "\<forall>r \<in> set prods. length r = 19 \<and> row_value r 1 = CStr [] \<and> row_value r 10 = CStr []"
      "sheet_of st' = set_cell (s1 @ [row] @ prods) (Suc (length s1)) (col ''com_postage'')
                              (CStr (com_postage_value (Suc (length s1))))"
    using process_order_new_Inr[OF assms] by blast
  have "length (sheet_of st) \<le> length s1"
  proof (cases "s1 = sheet_of st")
    case True
    then show ?thesis by simp
  next
    case False
    then obtain idx where i: "add_sum_row l (sheet_of st) (from_row st) (max_row (sheet_of st)) = Inr (s1, idx)"
      using a(1) by blast
    then show ?thesis by (rule add_sum_row_length)
  qed
  then show ?thesis using a that by blast
qed

lemma letters: "get_column_letter 12 = py ''L''" "get_column_letter 13 = py ''M''"
  "get_column_letter 23 = py ''W''"
  by (simp_all add: py_def get_column_letter.simps)

text \<open>
  Claim C7, as amended. A pass of the loop that inserts a new order puts the order in a new
  row \<open>r\<close> whose company-postage cell holds the formula text \<open>=M r - W r\<close>: the cell of the
  shipping column of that row minus the cell of the company-postal-payment column of that row.
\<close>

theorem com_postage_formula:
  assumes "process_order lib l existing st order = Inr st'"
    and "lookup_row existing (order_id order) = None"
  shows "\<exists>r. length (sheet_of st) < r \<and> r \<le> length (sheet_of st')
     \<and> cell_value (sheet_of st') r (col ''order_id'') = CInt (order_id order)
     \<and> cell_value (sheet_of st') r (col ''com_postage'')
         = CStr (py ''='' @ get_column_letter (col ''shipping'') @ str_nat r @ py '' - ''
                 @ get_column_letter (col ''com_postal_payment'') @ str_nat r)"
proof -
  obtain s1 row prods where a:
    "length (sheet_of st) \<le> length s1"
    "create_order_row lib l order = Inr row"
    "\<forall>r \<in> set prods. length r = 19 \<and> row_value r 1 = CStr [] \<and> row_value r 10 = CStr []"
    "sheet_of st' = set_cell (s1 @ [row] @ prods) (Suc (length s1)) (col ''com_postage'')
                              (CStr (com_postage_value (Suc (length s1))))"
    by (rule process_order_new_length[OF assms])
  let ?r = "Suc (length s1)"
  have row1: "row_value row 1 = CInt (order_id order)"
    using create_order_row_shape[OF a(2)] by simp
  have 1: "length (sheet_of st) < ?r" using a(1) by simp
  have 2: "?r \<le> length (sheet_of st')" by (simp add: a(4) length_set_cell)
  have "cell_value (sheet_of st') ?r 1 = cell_value (s1 @ [row] @ prods) ?r 1"
    by (simp add: a(4) col_values cell_value_set_cell)
  also have "\<dots> = row_value row 1"
    by (simp add: cell_value_Suc nth_append)
  finally have 3: "cell_value (sheet_of st') ?r (col ''order_id'') = CInt (order_id order)"
    using row1 by (simp add: col_values)
  have f: "com_postage_value ?r = py ''='' @ get_column_letter (col ''shipping'') @ str_nat ?r @ py '' - ''
                 @ get_column_letter (col ''com_postal_payment'') @ str_nat ?r"
    unfolding col_values letters com_postage_value_def by (simp add: py_def)
  have 4: "cell_value (sheet_of st') ?r (col ''com_postage'') = CStr (com_postage_value ?r)"
    by (simp add: a(4) col_values cell_value_set_cell)
  show ?thesis using 1 2 3 4 f by (intro exI[of _ ?r]) simp
qed

section \<open>Runs on concrete orders\<close>

lemma create_order_row_ok:
  assumes "shipping_sum lib (shipping_lines order) = Inr t"
    and "convert_to_jalali lib (date_paid order) = Inr j"
    and "find_meta_value order (py ''_billing_field_529'') = CStr b"
    and "py_int lib (order_total order) = Inr a"
    and "py_int lib (discount_total order) = Inr d"
  shows "\<exists>row. create_order_row lib l order = Inr row"
  using assms by (cases j) (auto simp add: create_order_row_def Let_def split: prod.splits)

lemma process_order_new_simple:
  assumes "convert_to_jalali lib (date_paid order) = Inr ((y, m, d), tp)"
    and "lookup_row existing (order_id order) = None"
    and "last_order_jalali_month st = None
         \<or> last_order_jalali_month st = Some (str_int y @ py ''-'' @ fmt02d m)"
    and "create_order_row lib l order = Inr row"
    and "line_items order = []"
  shows "process_order lib l existing st order
     = Inr \<lparr>sheet_of = set_cell (sheet_of st @ [row]) (Suc (length (sheet_of st))) (col ''com_postage'')
                          (CStr (com_postage_value (Suc (length (sheet_of st))))),
            last_order_jalali_month = Some (str_int y @ py ''-'' @ fmt02d m),
            from_row = from_row st,
            sum_row_indices = sum_row_indices st,
            new_orders_count = new_orders_count st + 1\<rparr>"
proof -
  obtain dd where dd: "py_int lib (discount_total order) = Inr dd"
    using create_order_row_shape[OF assms(4)] by blast
  have rne: "row \<noteq> []" using create_order_row_shape[OF assms(4)] by auto
  show ?thesis
    using assms dd
    by (auto simp add: process_order_def Let_def apply_styles_def append_row_def max_row_append[OF rne])
qed

lemma sample_fields:
  "order_id (sample_order i st paid meta) = i"
  "status (sample_order i st paid meta) = py st"
  "date_paid (sample_order i st paid meta) = map_option py paid"
  "meta_data (sample_order i st paid meta) = meta"
  "line_items (sample_order i st paid meta) = []"
  "shipping_lines (sample_order i st paid meta) = [py ''50'']"
  "order_total (sample_order i st paid meta) = py ''1000''"
  "discount_total (sample_order i st paid meta) = py ''100''"
  by (simp_all add: sample_order_def)

lemma lib0_fields:
  "py_int lib0 = plain_int"
  "shipping_sum lib0 ls = Inr (sum_list (map digits_value (filter all_digits ls)))"
  "fromisoformat lib0 = plain_date"
  "fromgregorian lib0 = gregorian_to_jalali"
  by (simp_all add: lib0_def)

lemma plain_int_samples: "plain_int (py ''1000'') = Inr 1000" "plain_int (py ''100'') = Inr 100"
  by (simp_all add: plain_int_def all_digits_def digits_value_def py_def)

lemma sample_birthday:
  "find_meta_value (sample_order i st paid birthday_meta) (py ''_billing_field_529'') = CStr (py ''1370/01/01'')"
  by (simp add: find_meta_value_def sample_order_def birthday_meta_def)

lemma convert_samples:
  "convert_to_jalali lib0 (Some (py ''2024-03-19T10:00:00'')) = Inr ((1402, 12, 29), py ''10:00:00'')"
  "convert_to_jalali lib0 (Some (py ''2024-03-20T10:00:00'')) = Inr ((1403, 1, 1), py ''10:00:00'')"
  "convert_to_jalali lib0 (Some (py ''2024-04-25T10:00:00'')) = Inr ((1403, 2, 6), py ''10:00:00'')"
  by code_simp+

lemma month_keys:
  "str_int 1402 @ py ''-'' @ fmt02d 12 = py ''1402-12''"
  "str_int 1403 @ py ''-'' @ fmt02d 1 = py ''1403-01''"
  "str_int 1403 @ py ''-'' @ fmt02d 2 = py ''1403-02''"
  by code_simp+

lemma shipping_sample: "shipping_sum lib0 [py ''50''] = Inr 50"
  by (simp add: lib0_def all_digits_def digits_value_def py_def)

lemma sample_row_exists:
  assumes "convert_to_jalali lib0 (map_option py paid) = Inr j"
  shows "\<exists>row. create_order_row lib0 l (sample_order i st paid birthday_meta) = Inr row"
  by (rule create_order_row_ok[where t = 50 and j = j and a = 1000 and d = 100
        and b = "py ''1370/01/01''"])
     (simp_all add: sample_fields lib0_fields(1) plain_int_samples sample_birthday assms
        shipping_sample)

lemma order_b_inserted:
  obtains row where "create_order_row lib0 En order_b = Inr row"
    "process_order lib0 En [] header_only order_b
       = Inr \<lparr>sheet_of = set_cell ([[CStr (py ''Order ID'')]] @ [row]) 2 (col ''com_postage'')
                            (CStr (com_postage_value 2)),
              last_order_jalali_month = Some (py ''1403-01''),
              from_row = 2, sum_row_indices = [], new_orders_count = 1\<rparr>"
proof -
  have c: "convert_to_jalali lib0 (date_paid order_b) = Inr ((1403, 1, 1), py ''10:00:00'')"
    by (simp add: order_b_def sample_fields convert_samples)
  obtain row where row: "create_order_row lib0 En order_b = Inr row"
    unfolding order_b_def using sample_row_exists[OF convert_samples(2)[unfolded option.map[symmetric]]]
    by (metis option.simps(9))
  have "process_order lib0 En [] header_only order_b
       = Inr \<lparr>sheet_of = set_cell (sheet_of header_only @ [row]) (Suc (length (sheet_of header_only)))
                            (col ''com_postage'')
                            (CStr (com_postage_value (Suc (length (sheet_of header_only))))),
              last_order_jalali_month = Some (str_int 1403 @ py ''-'' @ fmt02d 1),
              from_row = from_row header_only,
              sum_row_indices = sum_row_indices header_only,
              new_orders_count = new_orders_count header_only + 1\<rparr>"
    by (rule process_order_new_simple[OF c _ _ row])
       (simp_all add: lookup_row_def header_only_def order_b_def sample_fields)
  then show ?thesis using that row by (simp add: header_only_def month_keys numeral_2_eq_2)
qed

theorem com_postage_formula_witness:
  "\<exists>st' r. process_order lib0 En [] header_only order_b = Inr st'
     \<and> 1 < r \<and> r \<le> length (sheet_of st')
     \<and> cell_value (sheet_of st') r (col ''order_id'') = CInt 2
     \<and> cell_value (sheet_of st') r (col ''com_postage'')
         = CStr (py ''='' @ get_column_letter (col ''shipping'') @ str_nat r @ py '' - ''
                 @ get_column_letter (col ''com_postal_payment'') @ str_nat r)"
proof -
  obtain row where p: "process_order lib0 En [] header_only order_b
       = Inr \<lparr>sheet_of = set_cell ([[CStr (py ''Order ID'')]] @ [row]) 2 (col ''com_postage'')
                            (CStr (com_postage_value 2)),
              last_order_jalali_month = Some (py ''1403-01''),
              from_row = 2, sum_row_indices = [], new_orders_count = 1\<rparr>"
    by (rule order_b_inserted)
  have n: "lookup_row [] (order_id order_b) = None" by (simp add: lookup_row_def)
  show ?thesis
    using com_postage_formula[OF p n] p
    by (simp add: header_only_def order_b_def sample_fields)
qed

text \<open>
  The claim as stated fails: the column of \<open>total\<close> is L, and the formula of the inserted
  row 2 reads \<open>=M2 - W2\<close>, not \<open>=L2 - W2\<close>.
\<close>

theorem com_postage_total_counterexample:
  "\<exists>st'. process_order lib0 En [] header_only order_b = Inr st'
     \<and> cell_value (sheet_of st') 2 (col ''order_id'') = CInt 2
     \<and> cell_value (sheet_of st') 2 (col ''com_postage'') = CStr (py ''=M2 - W2'')
     \<and> get_column_letter (col ''total'') = py ''L''
     \<and> get_column_letter (col ''shipping'') = py ''M''
     \<and> cell_value (sheet_of st') 2 (col ''com_postage'')
         \<noteq> CStr (py ''='' @ get_column_letter (col ''total'') @ py ''2 - ''
                  @ get_column_letter (col ''com_postal_payment'') @ py ''2'')"
proof -
  obtain row where row: "create_order_row lib0 En order_b = Inr row"
    and p: "process_order lib0 En [] header_only order_b
       = Inr \<lparr>sheet_of = set_cell ([[CStr (py ''Order ID'')]] @ [row]) 2 (col ''com_postage'')
                            (CStr (com_postage_value 2)),
              last_order_jalali_month = Some (py ''1403-01''),
              from_row = 2, sum_row_indices = [], new_orders_count = 1\<rparr>"
    by (rule order_b_inserted)
  have r1: "row_value row 1 = CInt 2"
    using create_order_row_shape[OF row] by (simp add: order_b_def sample_fields)
  have f: "com_postage_value 2 = py ''=M2 - W2''"
    by (simp add: com_postage_value_def str_nat.simps py_def)
  have a: "cell_value (set_cell ([[CStr (py ''Order ID'')]] @ [row]) 2 (col ''com_postage'')
                            (CStr (com_postage_value 2))) 2 (col ''order_id'') = CInt 2"
  proof -
    have "cell_value (set_cell ([[CStr (py ''Order ID'')]] @ [row]) 2 (col ''com_postage'')
                            (CStr (com_postage_value 2))) 2 (col ''order_id'')
        = cell_value ([[CStr (py ''Order ID'')]] @ [row]) 2 1"
      by (simp add: col_values cell_value_set_cell)
    also have "\<dots> = row_value row 1" by (simp add: cell_value_def)
    finally show ?thesis using r1 by simp
  qed
  have b: "cell_value (set_cell ([[CStr (py ''Order ID'')]] @ [row]) 2 (col ''com_postage'')
                            (CStr (com_postage_value 2))) 2 (col ''com_postage'') = CStr (py ''=M2 - W2'')"
    by (simp add: col_values cell_value_set_cell f)
  have c: "py ''=M2 - W2'' \<noteq> py ''='' @ get_column_letter (col ''total'') @ py ''2 - ''
                  @ get_column_letter (col ''com_postal_payment'') @ py ''2''"
    by (simp add: col_values letters) (simp add: py_def)
  show ?thesis
    unfolding p using a b c by (simp add: col_values letters)
qed

theorem upsert_changes_four_cells_witness:
  "\<exists>st'. process_order lib0 En (existing_order_ids small_sheet)
            \<lparr>sheet_of = small_sheet, last_order_jalali_month = None, from_row = 2,
             sum_row_indices = [], new_orders_count = 0\<rparr> order_a = Inr st'
     \<and> cell_value (sheet_of st') 2 (col ''order_id'') = CInt 1
     \<and> cell_value (sheet_of st') 1 (col ''status'') = CStr (py ''Status'')
     \<and> length (sheet_of st') = 2"
proof -
  let ?st = "\<lparr>sheet_of = small_sheet, last_order_jalali_month = None, from_row = 2,
             sum_row_indices = [], new_orders_count = 0\<rparr>"
  have l: "lookup_row (existing_order_ids small_sheet) (order_id order_a) = Some 2"
    by (simp add: lookup_row_Some small_sheet_def cell_value_def row_value_def order_a_def sample_fields)
  have c: "convert_to_jalali lib0 (date_paid order_a) = Inr ((1402, 12, 29), py ''10:00:00'')"
    by (simp add: order_a_def sample_fields convert_samples)
  note T = upsert_changes_four_cells[OF l, where lib = lib0 and l = En and st = ?st]
  from T c obtain st' where p: "process_order lib0 En (existing_order_ids small_sheet) ?st order_a = Inr st'"
    by blast
  have v1: "cell_value small_sheet 2 (col ''order_id'') = CInt 1"
    "cell_value small_sheet 1 (col ''status'') = CStr (py ''Status'')"
    by (simp_all add: small_sheet_def cell_value_def row_value_def col_values)
  have "cell_value (sheet_of st') 2 (col ''order_id'') = cell_value small_sheet 2 (col ''order_id'')"
    "cell_value (sheet_of st') 1 (col ''status'') = cell_value small_sheet 1 (col ''status'')"
    "length (sheet_of st') = 2"
    using T p by (simp_all add: col_values small_sheet_def)
  then show ?thesis using p v1 by simp
qed

section \<open>Closing a ledger and opening it again\<close>

lemma hd_set_cell: "2 \<le> r \<Longrightarrow> s \<noteq> [] \<Longrightarrow> hd (set_cell s r c v) = hd s"
proof -
  assume a: "2 \<le> r" "s \<noteq> []"
  have "take 1 (set_cell s r c v) = take 1 s"
    by (rule take_set_cell) (use a in \<open>auto simp add: Suc_le_eq\<close>)
  then have "hd (take 1 (set_cell s r c v)) = hd (take 1 s)" by simp
  then show ?thesis by (simp add: hd_take)
qed

lemma set_cell_nonempty: "s \<noteq> [] \<Longrightarrow> set_cell s r c v \<noteq> []"
  using length_set_cell[of s r c v] by (cases "set_cell s r c v") auto

lemma hd_update_existing:
  assumes "2 \<le> r" "s \<noteq> []"
  shows "hd (update_existing l s r order) = hd s \<and> update_existing l s r order \<noteq> []"
proof -
  have u: "\<And>t key v. t \<noteq> [] \<Longrightarrow> hd (update_cell t r key v) = hd t \<and> update_cell t r key v \<noteq> []"
    using assms(1) by (simp add: update_cell_def hd_set_cell set_cell_nonempty)
  have st: "hd (update_status l s r (status order)) = hd s \<and> update_status l s r (status order) \<noteq> []"
    using assms by (simp add: update_status_def Let_def hd_set_cell set_cell_nonempty)
  show ?thesis
    unfolding update_existing_def Let_def using st u by metis
qed

lemma fold_max_ge_init: "(a::nat) \<le> fold max xs a"
proof (induction xs arbitrary: a)
  case Nil
  then show ?case by simp
next
  case (Cons x xs)
  have "max x a \<le> fold max xs (max x a)" by (rule Cons.IH)
  then show ?case by simp
qed

lemma fold_max_ge_elem: "(x::nat) \<in> set xs \<Longrightarrow> x \<le> fold max xs a"
proof (induction xs arbitrary: a)
  case Nil
  then show ?case by simp
next
  case (Cons y ys)
  show ?case
  proof (cases "x = y")
    case True
    have "max y a \<le> fold max ys (max y a)" by (rule fold_max_ge_init)
    then show ?thesis using True by simp
  next
    case False
    then have "x \<in> set ys" using Cons.prems by simp
    then show ?thesis using Cons.IH by simp
  qed
qed

lemma max_column_ge:
  assumes "cell_value s r c \<noteq> CNone"
  shows "c \<le> max_column s"
proof -
  obtain i where r: "r = Suc i" "i < length s"
    using assms by (cases r) (auto simp add: cell_value_Suc cell_value_0 split: if_splits)
  then have "row_value (s ! i) c \<noteq> CNone" using assms by (simp add: cell_value_Suc)
  then have "c \<le> length (s ! i)" by (auto simp add: row_value_def split: if_splits)
  moreover have "length (s ! i) \<in> set (map length s)" using r(2) by simp
  ultimately show ?thesis
    unfolding max_column_def using fold_max_ge_elem[of "length (s ! i)" "map length s" 1] by simp
qed

lemma label_not_none: "CStr (item (TEXT l) ''sum_month_orders_row_text'') \<noteq> CNone"
  by simp

lemma cell_value_snoc:
  "cell_value (s @ [row]) r c
     = (if r = Suc (length s) then row_value row c else cell_value s r c)"
  by (cases r) (auto simp add: cell_value_Suc cell_value_0 nth_append)

text \<open>
  The close of a run appends two rows that hold cells, the last sum row and the row of all
  orders, to a sheet that ends with a row that holds a cell.
\<close>

lemma close_sheet_Inr:
  assumes "close_sheet l s = Inr f" and "last s \<noteq> []"
  shows "s \<noteq> [] \<and> (\<exists>sum_row totals. f = s @ [sum_row, totals] \<and> sum_row \<noteq> [] \<and> totals \<noteq> [])"
proof -
  obtain srs where srs: "find_sum_rows l s = Inr srs" "srs \<noteq> []"
    using assms(1) by (cases "find_sum_rows l s") (auto simp add: close_sheet_def split: if_splits)
  then have ne: "s \<noteq> []" by (auto simp add: find_sum_rows_def max_row_Nil split: if_splits)
  obtain s1 idx where a: "add_sum_row l s (last srs + 1) (max_row s) = Inr (s1, idx)"
    using assms(1) srs
    by (cases "add_sum_row l s (last srs + 1) (max_row s)") (auto simp add: close_sheet_def)
  obtain srs' where srs': "find_sum_rows l s1 = Inr srs'"
    using assms(1) srs a by (cases "find_sum_rows l s1") (auto simp add: close_sheet_def)
  have f: "f = s1 @ [last f]" "last f \<noteq> []"
    using assms(1) srs a srs' by (auto simp add: close_sheet_def append_totals_def append_row_def)
  have st: "length s1 = Suc (length s)" "take (length s) s1 = s"
    using add_sum_row_struct[OF ne a assms(2)] by simp_all
  have "cell_value s1 (Suc (length s)) 10 = CStr (item (TEXT l) ''sum_month_orders_row_text'')"
    using add_sum_row_cells[OF ne a assms(2)] by auto
  then have "row_value (s1 ! length s) 10 \<noteq> CNone" using st(1) by (simp add: cell_value_Suc)
  then have rne: "s1 ! length s \<noteq> []" using row_value_Nil[of 10] by auto
  have "take (Suc (length s)) s1 = take (length s) s1 @ [s1 ! length s]"
    by (rule take_Suc_conv_app_nth) (simp add: st(1))
  then have s1: "s1 = s @ [s1 ! length s]" using st by simp
  have "f = s @ [s1 ! length s, last f]"
    by (subst f(1), subst s1) simp
  then show ?thesis using ne rne f(2) by blast
qed

lemma open_sheet_reopen:
  assumes "s \<noteq> []" "last s \<noteq> []" "a \<noteq> []" "b \<noteq> []"
  shows "open_sheet l (Some (s @ [a, b])) = s"
proof -
  let ?f = "s @ [a, b]"
  have t: "trim ?f = ?f" by (rule trim_full) (use assms(4) in simp_all)
  have m: "max_row ?f = Suc (Suc (length s))"
    by (rule trans[OF max_row_full]) (use assms(4) in simp_all)
  have m1: "max_row (s @ [a]) = Suc (length s)"
    by (rule trans[OF max_row_full]) (use assms(3) in simp_all)
  have d1: "delete_rows ?f (Suc (Suc (length s))) = s @ [a]"
    using assms(3) by (simp add: delete_rows_def trim_snoc)
  have d2: "delete_rows (s @ [a]) (Suc (length s)) = s"
    using assms(1,2) by (simp add: delete_rows_def trim_full)
  have "open_sheet l (Some ?f)
      = (let s2 = delete_rows ?f (max_row ?f) in delete_rows s2 (max_row s2))"
    unfolding open_sheet_def Let_def option.case t using m by simp
  also have "\<dots> = s" unfolding Let_def m d1 m1 d2 ..
  finally show ?thesis .
qed

lemma reopen_closed:
  assumes "close_sheet l s = Inr f" and "last s \<noteq> []"
  shows "open_sheet l' (Some f) = s"
proof -
  obtain a b where ab: "s \<noteq> []" "f = s @ [a, b]" "a \<noteq> []" "b \<noteq> []"
    using close_sheet_Inr[OF assms] by blast
  show ?thesis unfolding ab(2) by (rule open_sheet_reopen[OF ab(1) assms(2) ab(3,4)])
qed

section \<open>Runs that return a ledger\<close>

lemma add_sum_row_ok:
  assumes "s \<noteq> []" and "CStr (item (COLUMN_HEADERS l) ''order_id'') \<in> set (hd s)"
    and "last s \<noteq> []"
  shows "\<exists>s'. add_sum_row l s from (max_row s) = Inr (s', Suc (length s))"
proof -
  let ?n = "length s"
  let ?s2 = "set_cell s (Suc ?n) (col ''address'') (CStr (item (TEXT l) ''sum_month_orders_row_text''))"
  have m: "max_row s = ?n" by (rule max_row_full[OF assms(1) assms(3)])
  have l2: "2 \<le> Suc ?n" using assms(1) by (cases s) auto
  have h: "hd ?s2 = hd s" by (rule hd_set_cell[OF l2 assms(1)])
  have ne: "?s2 \<noteq> []" by (rule set_cell_nonempty[OF assms(1)])
  obtain cnt where "count_integer_rows ?s2 (item (COLUMN_HEADERS l) ''order_id'') from ?n = Inr cnt"
    using assms(2) h ne by (simp add: count_integer_rows_def Let_def)
  then show ?thesis
    unfolding add_sum_row_def m by (simp add: Let_def insert_rows_beyond)
qed

lemma process_order_new_sum:
  assumes "convert_to_jalali lib (date_paid order) = Inr ((y, m, d), tp)"
    and "lookup_row existing (order_id order) = None"
    and "last_order_jalali_month st = Some lm"
    and "lm \<noteq> str_int y @ py ''-'' @ fmt02d m"
    and "add_sum_row l (sheet_of st) (from_row st) (max_row (sheet_of st)) = Inr (s1, idx)"
    and "create_order_row lib l order = Inr row"
    and "line_items order = []"
  shows "process_order lib l existing st order
     = Inr \<lparr>sheet_of = set_cell (s1 @ [row]) (Suc (length s1)) (col ''com_postage'')
                          (CStr (com_postage_value (Suc (length s1)))),
            last_order_jalali_month = Some (str_int y @ py ''-'' @ fmt02d m),
            from_row = max_row s1 + 1,
            sum_row_indices = sum_row_indices st @ [idx],
            new_orders_count = new_orders_count st + 1\<rparr>"
proof -
  obtain dd where dd: "py_int lib (discount_total order) = Inr dd"
    using create_order_row_shape[OF assms(6)] by blast
  have rne: "row \<noteq> []" using create_order_row_shape[OF assms(6)] by auto
  show ?thesis
    using assms dd
    by (auto simp add: process_order_def Let_def apply_styles_def append_row_def max_row_append[OF rne])
qed

lemma find_sum_rows_ok:
  assumes "2 \<le> r" "r \<le> length s"
    and "cell_value s r 10 = CStr (item (TEXT l) ''sum_month_orders_row_text'')"
  shows "\<exists>srs. find_sum_rows l s = Inr srs \<and> r \<in> set srs"
proof -
  have "cell_value s r 10 \<noteq> CNone" using assms(3) by simp
  then have mc: "10 \<le> max_column s" by (rule max_column_ge)
  have mr: "r \<le> max_row s" using \<open>cell_value s r 10 \<noteq> CNone\<close> cell_row_le_max_row by blast
  show ?thesis using assms mc mr by (auto simp add: find_sum_rows_def col_values simp del: upt_Suc)
qed

lemma close_sheet_ok:
  assumes "CStr (item (COLUMN_HEADERS l) ''order_id'') \<in> set (hd s)"
    and "2 \<le> r" "r \<le> length s"
    and "cell_value s r 10 = CStr (item (TEXT l) ''sum_month_orders_row_text'')"
    and "last s \<noteq> []"
  shows "\<exists>f. close_sheet l s = Inr f"
proof -
  have ne: "s \<noteq> []" using assms(2,3) by auto
  obtain srs where srs: "find_sum_rows l s = Inr srs" "r \<in> set srs"
    using find_sum_rows_ok[OF assms(2,3,4)] by blast
  then have sne: "srs \<noteq> []" by auto
  obtain s1 where s1: "add_sum_row l s (last srs + 1) (max_row s) = Inr (s1, Suc (length s))"
    using add_sum_row_ok[OF ne assms(1) assms(5)] by blast
  have len: "length s1 = Suc (length s)" "take (length s) s1 = s"
    using add_sum_row_struct[OF ne s1 assms(5)] by simp_all
  have "cell_value s1 r 10 = cell_value s r 10"
    by (rule cell_value_take[OF len(2)]) (use len assms(3) in simp_all)
  then obtain srs' where srs': "find_sum_rows l s1 = Inr srs'"
    using find_sum_rows_ok[of r s1 l] assms(2,3,4) len(1) by auto
  show ?thesis using srs(1) sne s1 srs' by (simp add: close_sheet_def)
qed

lemma header_label_in_header:
  "CStr (item (COLUMN_HEADERS l) ''order_id'') \<in> set (map (\<lambda>kv. CStr (snd kv)) (COLUMN_HEADERS l))"
  by (cases l)
     (simp_all add: item_def COLUMN_HEADERS_def ENGLISH_COLUMN_HEADERS_def PERSIAN_COLUMN_HEADERS_def)

lemma header_row_nonempty: "map (\<lambda>kv. CStr (snd kv)) (COLUMN_HEADERS l) \<noteq> []"
  by (cases l) (simp_all add: COLUMN_HEADERS_def ENGLISH_COLUMN_HEADERS_def PERSIAN_COLUMN_HEADERS_def)

lemma open_sheet_new: "open_sheet l None = [map (\<lambda>kv. CStr (snd kv)) (COLUMN_HEADERS l)]"
proof -
  let ?H = "map (\<lambda>kv. CStr (snd kv)) (COLUMN_HEADERS l)"
  have "max_row ([] @ [?H]) = Suc (length ([] :: sheet))"
    by (rule max_row_append[OF header_row_nonempty])
  then have "max_row [?H] = 1" by simp
  then show ?thesis by (simp add: open_sheet_def max_row_Nil append_row_def Let_def)
qed

text \<open>
  A file of one row: the header is appended as row 2, then both rows are removed and the sheet
  is empty.
\<close>

lemma open_sheet_one_row:
  assumes "row \<noteq> []"
  shows "open_sheet l (Some [row]) = []"
proof -
  let ?H = "map (\<lambda>kv. CStr (snd kv)) (COLUMN_HEADERS l)"
  have t: "trim [row] = [row]" using assms by (simp add: trim_full)
  have m1: "max_row [row] = 1" using assms by (simp add: max_row_full)
  have "max_row ([row] @ [?H]) = Suc (length [row])"
    by (rule max_row_append[OF header_row_nonempty])
  then have m2: "max_row [row, ?H] = 2" by simp
  have d1: "delete_rows [row, ?H] 2 = [row]" using t by (simp add: delete_rows_def)
  have d2: "delete_rows [row] 1 = []" by (simp add: delete_rows_def trim_Nil)
  have "open_sheet l (Some [row])
      = (let s2 = delete_rows [row, ?H] (max_row [row, ?H]) in delete_rows s2 (max_row s2))"
    unfolding open_sheet_def Let_def option.case t append_row_def using m1 m2 by simp
  also have "\<dots> = []" unfolding Let_def m2 d1 m1 d2 ..
  finally show ?thesis .
qed

text \<open>
  A file whose last row but one holds no cell, such as one with cells in rows 1 and 3 only:
  after the removal of row 3 \<open>max_row\<close> is 1, so row 1 goes as well.
\<close>

lemma open_sheet_rows_1_3:
  assumes "x \<noteq> []" "y \<noteq> []"
  shows "open_sheet l (Some [x, [], y]) = []"
proof -
  have t: "trim [x, [], y] = [x, [], y]" using assms(2) by (simp add: trim_full)
  have m3: "max_row [x, [], y] = 3" using assms(2) by (simp add: max_row_full)
  have "trim ([x] @ [[]]) = trim [x]" using trim_snoc[of "[x]" "[]"] by simp
  then have "trim [x, []] = [x]" using assms(1) by (simp add: trim_full)
  then have d1: "delete_rows [x, [], y] 3 = [x]" by (simp add: delete_rows_def)
  have m1: "max_row [x] = 1" using assms(1) by (simp add: max_row_full)
  have d2: "delete_rows [x] 1 = []" by (simp add: delete_rows_def trim_Nil)
  have "open_sheet l (Some [x, [], y])
      = (let s2 = delete_rows [x, [], y] (max_row [x, [], y]) in delete_rows s2 (max_row s2))"
    unfolding open_sheet_def Let_def option.case t using m3 by simp
  also have "\<dots> = []" unfolding Let_def m3 d1 m1 d2 ..
  finally show ?thesis .
qed

lemma cell_in_first_row:
  assumes "cell_value s 1 c = v" "v \<noteq> CNone"
  shows "v \<in> set (hd s)"
proof -
  have s: "s \<noteq> []" using assms by (auto simp add: cell_value_def)
  then have "row_value (hd s) c = v" using assms(1) by (cases s) (simp_all add: cell_value_def)
  then show ?thesis using assms(2) by (auto simp add: row_value_def split: if_splits)
qed

lemma create_order_row_date:
  assumes "create_order_row lib l order = Inr row"
    and "convert_to_jalali lib (date_paid order) = Inr ((y, m, d), tp)"
  shows "row_value row 3 = CStr (str_int y @ py ''/'' @ fmt02d m @ py ''/'' @ fmt02d d)"
proof -
  have "date_paid order \<noteq> None"
    using assms(2) by (cases "date_paid order") (simp_all add: convert_to_jalali_def)
  moreover have "date_paid order \<noteq> Some []"
    using assms(2) by (cases "date_paid order") (auto simp add: convert_to_jalali_def)
  ultimately show ?thesis
    using assms
    by (auto simp add: create_order_row_def Let_def row_value_def
           split: sum.splits cell.splits)
qed

lemma date_cells:
  "str_int 1402 @ py ''/'' @ fmt02d 12 @ py ''/'' @ fmt02d 29 = py ''1402/12/29''"
  "str_int 1403 @ py ''/'' @ fmt02d 1 @ py ''/'' @ fmt02d 1 = py ''1403/01/01''"
  by code_simp+

lemma month_keys_differ:
  "py ''1402-12'' \<noteq> py ''1403-01''" "py ''1403-01'' \<noteq> py ''1403-02''" "py ''1402-12'' \<noteq> py ''1403-02''"
  by (simp_all add: py_def)

lemma sample_converts:
  "convert_to_jalali lib0 (date_paid order_a) = Inr ((1402, 12, 29), py ''10:00:00'')"
  "convert_to_jalali lib0 (date_paid order_b) = Inr ((1403, 1, 1), py ''10:00:00'')"
  "convert_to_jalali lib0 (date_paid order_c) = Inr ((1403, 2, 6), py ''10:00:00'')"
  by (simp_all add: order_a_def order_b_def order_c_def sample_fields convert_samples)

lemma sample_rows:
  "\<exists>row. create_order_row lib0 l order_a = Inr row"
  "\<exists>row. create_order_row lib0 l order_b = Inr row"
  "\<exists>row. create_order_row lib0 l order_c = Inr row"
  using sample_row_exists[of "Some ''2024-03-19T10:00:00''"] sample_row_exists[of "Some ''2024-03-20T10:00:00''"]
    sample_row_exists[of "Some ''2024-04-25T10:00:00''"]
  by (simp_all add: order_a_def order_b_def order_c_def convert_samples)

lemma sample_ids:
  "order_id order_a = 1" "order_id order_b = 2" "order_id order_c = 3"
  "line_items order_a = []" "line_items order_b = []" "line_items order_c = []"
  by (simp_all add: order_a_def order_b_def order_c_def sample_fields)

text \<open>
  The first run on a missing file with the orders of 1402-12 and 1403-01: the sheet the loop
  leaves has the header, order 1, the sum row of rows 2 to 2, and order 2.
\<close>

lemma first_run_loop:
  obtains st2 where
    "process_orders lib0 En (existing_order_ids (open_sheet En None))
        \<lparr>sheet_of = open_sheet En None, last_order_jalali_month = None, from_row = 2,
         sum_row_indices = [], new_orders_count = 0\<rparr> [order_a, order_b] = Inr st2"
    "length (sheet_of st2) = 4"
    "CStr (item (COLUMN_HEADERS En) ''order_id'') \<in> set (hd (sheet_of st2))"
    "cell_value (sheet_of st2) 2 1 = CInt 1"
    "cell_value (sheet_of st2) 3 1 = CNone"
    "cell_value (sheet_of st2) 3 10 = CStr (item (TEXT En) ''sum_month_orders_row_text'')"
    "cell_value (sheet_of st2) 3 12 = CStr (sum_formula 12 2 2)"
    "cell_value (sheet_of st2) 4 1 = CInt 2"
    "cell_value (sheet_of st2) 2 3 = CStr (py ''1402/12/29'')"
    "cell_value (sheet_of st2) 4 3 = CStr (py ''1403/01/01'')"
    "last (sheet_of st2) \<noteq> []"
proof -
  let ?H = "map (\<lambda>kv. CStr (snd kv)) (COLUMN_HEADERS En)"
  let ?ex = "existing_order_ids [?H]"
  let ?st0 = "\<lparr>sheet_of = [?H], last_order_jalali_month = None, from_row = 2,
         sum_row_indices = [], new_orders_count = 0\<rparr>"
  have none: "lookup_row ?ex i = None" for i by (auto simp add: lookup_row_None)
  obtain row_a where ra: "create_order_row lib0 En order_a = Inr row_a" using sample_rows(1) by blast
  obtain row_b where rb: "create_order_row lib0 En order_b = Inr row_b" using sample_rows(2) by blast
  have a1: "row_value row_a 1 = CInt 1" using create_order_row_shape[OF ra] by (simp add: sample_ids)
  have b1: "row_value row_b 1 = CInt 2" using create_order_row_shape[OF rb] by (simp add: sample_ids)
  have a3: "row_value row_a 3 = CStr (py ''1402/12/29'')"
    using create_order_row_date[OF ra sample_converts(1)] by (simp only: date_cells)
  have b3: "row_value row_b 3 = CStr (py ''1403/01/01'')"
    using create_order_row_date[OF rb sample_converts(2)] by (simp only: date_cells)
  define s1 where "s1 = set_cell ([?H] @ [row_a]) 2 (col ''com_postage'') (CStr (com_postage_value 2))"
  let ?st1 = "\<lparr>sheet_of = s1, last_order_jalali_month = Some (py ''1402-12''), from_row = 2,
         sum_row_indices = [], new_orders_count = 1\<rparr>"
  have p1: "process_order lib0 En ?ex ?st0 order_a = Inr ?st1"
    unfolding s1_def
    using process_order_new_simple[OF sample_converts(1) none _ ra sample_ids(4), of ?st0]
    by (simp add: month_keys numeral_2_eq_2)
  have l1: "length s1 = 2" unfolding s1_def by (simp add: length_set_cell)
  have ne1: "s1 \<noteq> []" using l1 by auto
  have h1: "hd s1 = ?H"
    unfolding s1_def using hd_set_cell[of 2 "[?H] @ [row_a]"] by simp
  have c1: "cell_value s1 r c = (if r = 2 \<and> c = 24 then CStr (com_postage_value 2)
      else cell_value ([?H] @ [row_a]) r c)" for r c
    unfolding s1_def by (simp add: col_values cell_value_set_cell)
  have last1: "last s1 \<noteq> []"
    using last_row_holds_cell[of s1 2 24] l1 by (simp add: c1)
  have lab: "CStr (item (COLUMN_HEADERS En) ''order_id'') \<in> set (hd s1)"
    unfolding h1 by (rule header_label_in_header)
  obtain s2 where s2: "add_sum_row En s1 2 (max_row s1) = Inr (s2, Suc (length s1))"
    using add_sum_row_ok[OF ne1 lab last1] by blast
  have st2: "length s2 = 3" "take 2 s2 = s1"
    using add_sum_row_struct[OF ne1 s2 last1] l1 by simp_all
  obtain cnt where cv2: "\<forall>r c. cell_value s2 r c =
          (if r = Suc (length s1) then
             (if c = 10 then CStr (item (TEXT En) ''sum_month_orders_row_text'')
              else if c = 11 then CInt (int cnt)
              else if c \<in> {12, 13, 14, 15, 19, 23, 24} then CStr (sum_formula c 2 (length s1))
              else CNone)
           else cell_value s1 r c)"
    using add_sum_row_cells[OF ne1 s2 last1] by blast
  define s3 where "s3 = set_cell (s2 @ [row_b]) (Suc (length s2)) (col ''com_postage'')
                (CStr (com_postage_value (Suc (length s2))))"
  let ?st2 = "\<lparr>sheet_of = s3, last_order_jalali_month = Some (py ''1403-01''),
         from_row = max_row s2 + 1, sum_row_indices = [] @ [Suc (length s1)],
         new_orders_count = 1 + 1\<rparr>"
  have p2: "process_order lib0 En ?ex ?st1 order_b = Inr ?st2"
    unfolding s3_def
    using process_order_new_sum[OF sample_converts(2) none _ _ _ rb sample_ids(5),
        of ?st1 "py ''1402-12''" s2 "Suc (length s1)"] s2
    by (simp add: month_keys month_keys_differ)
  have run: "process_orders lib0 En (existing_order_ids (open_sheet En None))
        \<lparr>sheet_of = open_sheet En None, last_order_jalali_month = None, from_row = 2,
         sum_row_indices = [], new_orders_count = 0\<rparr> [order_a, order_b] = Inr ?st2"
    unfolding open_sheet_new using p1 p2 by simp
  have e3: "s3 = set_cell (s2 @ [row_b]) 4 24 (CStr (com_postage_value 4))"
    unfolding s3_def using st2(1) by (simp add: col_values)
  have l3: "length s3 = 4" unfolding e3 using st2(1) by (simp add: length_set_cell)
  have c3: "cell_value s3 r c = (if r = 4 \<and> c = 24 then CStr (com_postage_value 4)
      else cell_value (s2 @ [row_b]) r c)" for r c
    unfolding e3 by (simp add: cell_value_set_cell)
  have last3: "last s3 \<noteq> []"
    using last_row_holds_cell[of s3 4 24] l3 by (simp add: c3)
  have low: "cell_value s3 r c = cell_value s2 r c" if "r \<le> 3" for r c
  proof -
    have "cell_value s3 r c = cell_value (s2 @ [row_b]) r c" using that by (simp add: c3)
    also have "\<dots> = cell_value s2 r c" using that st2(1) by (simp add: cell_value_append_left)
    finally show ?thesis .
  qed
  have h3: "hd s3 = ?H"
  proof -
    have "hd s3 = hd (s2 @ [row_b])"
      unfolding e3 by (rule hd_set_cell) (use st2(1) in simp_all)
    also have "\<dots> = hd s2" using st2(1) by (cases s2) simp_all
    also have "\<dots> = hd (take 2 s2)" by (simp add: hd_take)
    also have "\<dots> = ?H" unfolding st2(2) by (rule h1)
    finally show ?thesis .
  qed
  have f1: "CStr (item (COLUMN_HEADERS En) ''order_id'') \<in> set (hd s3)"
    unfolding h3 by (rule header_label_in_header)
  have "cell_value s3 2 1 = cell_value s2 2 1" by (rule low) simp
  also have "\<dots> = cell_value s1 2 1" using cv2 l1 by simp
  also have "\<dots> = cell_value ([?H] @ [row_a]) 2 1" by (simp add: c1)
  also have "\<dots> = row_value row_a 1" by (simp only: cell_value_snoc) simp
  finally have v21: "cell_value s3 2 1 = CInt 1" using a1 by simp
  have "cell_value s3 2 3 = cell_value s2 2 3" by (rule low) simp
  also have "\<dots> = cell_value s1 2 3" using cv2 l1 by simp
  also have "\<dots> = cell_value ([?H] @ [row_a]) 2 3" by (simp add: c1)
  also have "\<dots> = row_value row_a 3" by (simp only: cell_value_snoc) simp
  finally have v23: "cell_value s3 2 3 = CStr (py ''1402/12/29'')" using a3 by simp
  have s3r: "cell_value s3 3 c = cell_value s2 3 c" for c by (rule low) simp
  have v31: "cell_value s3 3 1 = CNone" unfolding s3r using cv2 l1 by simp
  have v310: "cell_value s3 3 10 = CStr (item (TEXT En) ''sum_month_orders_row_text'')"
    unfolding s3r using cv2 l1 by simp
  have v312: "cell_value s3 3 12 = CStr (sum_formula 12 2 2)" unfolding s3r using cv2 l1 by simp
  have "cell_value s3 4 1 = cell_value (s2 @ [row_b]) 4 1" by (simp add: c3)
  also have "\<dots> = row_value row_b 1" using st2(1) by (simp only: cell_value_snoc) simp
  finally have v41: "cell_value s3 4 1 = CInt 2" using b1 by simp
  have "cell_value s3 4 3 = cell_value (s2 @ [row_b]) 4 3" by (simp add: c3)
  also have "\<dots> = row_value row_b 3" using st2(1) by (simp only: cell_value_snoc) simp
  finally have v43: "cell_value s3 4 3 = CStr (py ''1403/01/01'')" using b3 by simp
  show ?thesis
    by (rule that[OF run]) (use l3 f1 v21 v31 v310 v312 v41 v23 v43 last3 in simp_all)
qed

lemma first_run_file:
  obtains f1 s where
    "write_to_excel lib0 En None [order_a, order_b] = Inr f1"
    "open_sheet En (Some f1) = s"
    "length s = 4"
    "CStr (item (COLUMN_HEADERS En) ''order_id'') \<in> set (hd s)"
    "cell_value s 2 1 = CInt 1"
    "cell_value s 3 1 = CNone"
    "cell_value s 3 10 = CStr (item (TEXT En) ''sum_month_orders_row_text'')"
    "cell_value s 3 12 = CStr (sum_formula 12 2 2)"
    "cell_value s 4 1 = CInt 2"
    "cell_value s 2 3 = CStr (py ''1402/12/29'')"
    "cell_value s 4 3 = CStr (py ''1403/01/01'')"
    "last s \<noteq> []"
proof -
  obtain st2 where st2:
    "process_orders lib0 En (existing_order_ids (open_sheet En None))
        \<lparr>sheet_of = open_sheet En None, last_order_jalali_month = None, from_row = 2,
         sum_row_indices = [], new_orders_count = 0\<rparr> [order_a, order_b] = Inr st2"
    "length (sheet_of st2) = 4"
    "CStr (item (COLUMN_HEADERS En) ''order_id'') \<in> set (hd (sheet_of st2))"
    "cell_value (sheet_of st2) 2 1 = CInt 1"
    "cell_value (sheet_of st2) 3 1 = CNone"
    "cell_value (sheet_of st2) 3 10 = CStr (item (TEXT En) ''sum_month_orders_row_text'')"
    "cell_value (sheet_of st2) 3 12 = CStr (sum_formula 12 2 2)"
    "cell_value (sheet_of st2) 4 1 = CInt 2"
    "cell_value (sheet_of st2) 2 3 = CStr (py ''1402/12/29'')"
    "cell_value (sheet_of st2) 4 3 = CStr (py ''1403/01/01'')"
    "last (sheet_of st2) \<noteq> []"
    by (rule first_run_loop)
  have "\<exists>f. close_sheet En (sheet_of st2) = Inr f"
    by (rule close_sheet_ok[OF st2(3) _ _ st2(6) st2(11)]) (simp_all add: st2(2))
  then obtain f1 where f1: "close_sheet En (sheet_of st2) = Inr f1" by blast
  have run: "write_to_excel lib0 En None [order_a, order_b] = Inr f1"
    using st2(1) f1 by (simp add: write_to_excel_def Let_def)
  have op: "open_sheet En (Some f1) = sheet_of st2"
    by (rule reopen_closed[OF f1 st2(11)])
  show ?thesis by (rule that[OF run op st2(2-11)])
qed

section \<open>Orders without a paid date\<close>

lemma process_order_dateless:
  "date_paid order = None \<Longrightarrow> process_order lib l existing st order = Inl AttributeError"
  by (simp add: process_order_def convert_to_jalali_def)

lemma process_orders_dateless:
  "order \<in> set orders \<Longrightarrow> date_paid order = None
     \<Longrightarrow> \<exists>e. process_orders lib l existing st orders = Inl e"
proof (induction orders arbitrary: st)
  case Nil
  then show ?case by simp
next
  case (Cons a orders)
  show ?case
  proof (cases "process_order lib l existing st a")
    case (Inl e)
    then show ?thesis by simp
  next
    case (Inr st')
    then have "a \<noteq> order" using Cons.prems(2) by (auto simp add: process_order_dateless)
    then have "order \<in> set orders" using Cons.prems(1) by simp
    then show ?thesis using Cons.IH[OF _ Cons.prems(2)] Inr by simp
  qed
qed

text \<open>
  The function that builds the row of an order does handle a null \<open>date_paid\<close>: it leaves the
  date cell empty. The order below gets such a row.
\<close>

lemma create_order_row_dateless:
  assumes "date_paid order = None"
    and "shipping_sum lib (shipping_lines order) = Inr t"
    and "find_meta_value order (py ''_billing_field_529'') = CStr b"
    and "py_int lib (order_total order) = Inr a"
    and "py_int lib (discount_total order) = Inr d"
  shows "\<exists>row. create_order_row lib l order = Inr row \<and> row_value row 3 = CStr []"
  using assms by (simp add: create_order_row_def Let_def row_value_def)

lemma create_order_row_dateless_sample:
  "\<exists>row. create_order_row lib0 En order_dateless = Inr row \<and> row_value row 3 = CStr []"
  unfolding order_dateless_def
  by (rule create_order_row_dateless[where t = 50 and a = 1000 and d = 100
        and b = "py ''1370/01/01''"])
     (simp_all add: sample_fields lib0_fields(1) plain_int_samples sample_birthday shipping_sample)

text \<open>
  Claim C3. The loop of \<open>write_to_excel\<close> converts the paid date of every order before
  anything else, so an order whose \<open>date_paid\<close> is null raises there: whatever the ledger
  file and wherever the order stands in the batch, the run ends with an exception and saves
  nothing, neither the dateless order nor the orders after it. The code does not do what the
  claim asks for.
\<close>

theorem dateless_order_aborts:
  assumes "order \<in> set orders" and "date_paid order = None"
  shows "\<exists>e. write_to_excel lib l excel_file orders = Inl e"
proof -
  obtain e where "process_orders lib l (existing_order_ids (open_sheet l excel_file))
        \<lparr>sheet_of = open_sheet l excel_file, last_order_jalali_month = None, from_row = 2,
         sum_row_indices = [], new_orders_count = 0\<rparr> orders = Inl e"
    using process_orders_dateless[OF assms] by blast
  then show ?thesis by (simp add: write_to_excel_def Let_def)
qed

theorem dateless_order_aborts_witness:
  "order_dateless \<in> set [order_b, order_dateless] \<and> date_paid order_dateless = None
     \<and> (\<exists>e. write_to_excel lib0 En None [order_b, order_dateless] = Inl e)"
  using dateless_order_aborts[of order_dateless "[order_b, order_dateless]" lib0 En None]
  by (simp add: order_dateless_def sample_fields)

section \<open>A new file whose orders fall in one month\<close>

lemma cell_value_products:
  assumes "\<forall>row \<in> set prods. length row = 19 \<and> row_value row 1 = CStr [] \<and> row_value row 10 = CStr []"
  shows "cell_value prods k 1 \<noteq> CInt j"
    and "cell_value prods k 10 = CNone \<or> cell_value prods k 10 = CStr []"
proof -
  show "cell_value prods k 1 \<noteq> CInt j"
    using assms by (cases k) (auto simp add: cell_value_Suc cell_value_0)
  show "cell_value prods k 10 = CNone \<or> cell_value prods k 10 = CStr []"
    using assms by (cases k) (auto simp add: cell_value_Suc cell_value_0)
qed

lemma label_nonempty: "item (TEXT l) ''sum_month_orders_row_text'' \<noteq> []"
  by (cases l) (simp_all add: item_def TEXT_def ENGLISH_TEXT_def PERSIAN_TEXT_def py_def)

text \<open>
  A pass for a new order whose month is the month of the order before it (or the first
  order of the run) inserts no sum row.
\<close>

lemma process_order_same_month:
  assumes p: "process_order lib l existing st order = Inr st'"
    and c: "convert_to_jalali lib (date_paid order) = Inr ((y, m, d), tp)"
    and n: "lookup_row existing (order_id order) = None"
    and lm: "last_order_jalali_month st = None
         \<or> last_order_jalali_month st = Some (str_int y @ py ''-'' @ fmt02d m)"
  shows "\<exists>row prods. create_order_row lib l order = Inr row
          \<and> (\<forall>r \<in> set prods. length r = 19 \<and> row_value r 1 = CStr [] \<and> row_value r 10 = CStr [])
          \<and> sheet_of st' = set_cell (sheet_of st @ [row] @ prods) (Suc (length (sheet_of st)))
                              (col ''com_postage'')
                              (CStr (com_postage_value (Suc (length (sheet_of st)))))
          \<and> last_order_jalali_month st' = Some (str_int y @ py ''-'' @ fmt02d m)"
proof -
  let ?s = "sheet_of st"
  obtain row where row: "create_order_row lib l order = Inr row"
    using p c n lm
    by (cases "create_order_row lib l order") (auto simp add: process_order_def Let_def)
  obtain s3 where s3: "apply_styles lib (?s @ [row]) (max_row (?s @ [row])) order = Inr s3"
    using p c n lm row
    by (cases "apply_styles lib (?s @ [row]) (max_row (?s @ [row])) order")
       (auto simp add: process_order_def Let_def append_row_def)
  then have s3eq: "s3 = ?s @ [row]"
    by (auto simp add: apply_styles_def split: sum.splits)
  obtain s4 where s4: "write_products lib (?s @ [row]) (line_items order) = Inr s4"
    using p c n lm row s3 s3eq
    by (cases "write_products lib (?s @ [row]) (line_items order)")
       (auto simp add: process_order_def Let_def append_row_def)
  obtain prods where prods: "s4 = (?s @ [row]) @ prods"
      "\<forall>r \<in> set prods. length r = 19 \<and> row_value r 1 = CStr [] \<and> row_value r 10 = CStr []"
    using write_products_appends[OF s4] by blast
  have rne: "row \<noteq> []" using create_order_row_shape[OF row] by auto
  have st': "sheet_of st' = set_cell s4 (Suc (length ?s)) (col ''com_postage'')
                              (CStr (com_postage_value (Suc (length ?s))))"
      "last_order_jalali_month st' = Some (str_int y @ py ''-'' @ fmt02d m)"
    using p c n lm row s3 s3eq s4
    by (auto simp add: process_order_def Let_def append_row_def max_row_append[OF rne])
  show ?thesis
    using row s4 prods st' by (intro exI[of _ row] exI[of _ prods]) simp
qed

lemma step_no_sum_row:
  assumes p: "process_order lib l existing st order = Inr st'"
    and c: "convert_to_jalali lib (date_paid order) = Inr ((y, m, d), tp)"
    and n: "lookup_row existing (order_id order) = None"
    and lm: "last_order_jalali_month st = None
         \<or> last_order_jalali_month st = Some (str_int y @ py ''-'' @ fmt02d m)"
    and addr: "translate arabic_to_english (translate persian_to_english (address_1 (shipping order)))
                 \<noteq> item (TEXT l) ''sum_month_orders_row_text''"
    and inv: "\<forall>r. 2 \<le> r \<longrightarrow> cell_value (sheet_of st) r 10 \<noteq> CStr (item (TEXT l) ''sum_month_orders_row_text'')"
  shows "last_order_jalali_month st' = Some (str_int y @ py ''-'' @ fmt02d m)
     \<and> (\<forall>r. 2 \<le> r \<longrightarrow> cell_value (sheet_of st') r 10 \<noteq> CStr (item (TEXT l) ''sum_month_orders_row_text''))"
proof -
  let ?s = "sheet_of st"
  let ?lab = "CStr (item (TEXT l) ''sum_month_orders_row_text'')"
  obtain row prods where a: "create_order_row lib l order = Inr row"
      "\<forall>r \<in> set prods. length r = 19 \<and> row_value r 1 = CStr [] \<and> row_value r 10 = CStr []"
      "sheet_of st' = set_cell (?s @ [row] @ prods) (Suc (length ?s)) (col ''com_postage'')
                              (CStr (com_postage_value (Suc (length ?s))))"
      "last_order_jalali_month st' = Some (str_int y @ py ''-'' @ fmt02d m)"
    using process_order_same_month[OF p c n lm] by blast
  have r10: "row_value row 10 \<noteq> ?lab"
    using create_order_row_shape[OF a(1)] addr by simp
  have cells: "cell_value (sheet_of st') r 10 = cell_value (?s @ [row] @ prods) r 10" for r
    unfolding a(3) by (simp add: col_values cell_value_set_cell)
  have "cell_value (sheet_of st') r 10 \<noteq> ?lab" if r: "2 \<le> r" for r
  proof -
    consider "r \<le> length ?s" | "r = Suc (length ?s)" | "Suc (length ?s) < r" by linarith
    then show ?thesis
    proof cases
      case 1
      then have "cell_value (sheet_of st') r 10 = cell_value ?s r 10"
        by (simp add: cells cell_value_append_left)
      then show ?thesis using inv r by simp
    next
      case 2
      have "cell_value (?s @ [row] @ prods) r 10 = cell_value ((?s @ [row]) @ prods) r 10" by simp
      also have "\<dots> = cell_value (?s @ [row]) r 10"
        by (rule cell_value_append_left) (simp add: 2)
      also have "\<dots> = row_value row 10" by (simp only: cell_value_snoc 2) simp
      finally show ?thesis using r10 by (simp add: cells)
    next
      case 3
      have "cell_value (?s @ [row] @ prods) r 10 = cell_value ((?s @ [row]) @ prods) r 10" by simp
      also have "\<dots> = cell_value prods (r - length (?s @ [row])) 10"
        by (rule cell_value_append_right) (use 3 in simp)
      finally have e: "cell_value (sheet_of st') r 10 = cell_value prods (r - length (?s @ [row])) 10"
        by (simp add: cells)
      show ?thesis
        unfolding e using cell_value_products(2)[OF a(2), of "r - length (?s @ [row])"] label_nonempty[of l]
        by auto
    qed
  qed
  then show ?thesis using a(4) by simp
qed

lemma run_no_sum_row:
  assumes "process_orders lib l existing st orders = Inr st'"
    and "\<forall>order \<in> set orders. \<exists>d tp. convert_to_jalali lib (date_paid order) = Inr ((y, m, d), tp)"
    and "\<forall>order \<in> set orders.
           translate arabic_to_english (translate persian_to_english (address_1 (shipping order)))
             \<noteq> item (TEXT l) ''sum_month_orders_row_text''"
    and "\<forall>i. lookup_row existing i = None"
    and "last_order_jalali_month st = None
         \<or> last_order_jalali_month st = Some (str_int y @ py ''-'' @ fmt02d m)"
    and "\<forall>r. 2 \<le> r \<longrightarrow> cell_value (sheet_of st) r 10 \<noteq> CStr (item (TEXT l) ''sum_month_orders_row_text'')"
  shows "\<forall>r. 2 \<le> r \<longrightarrow> cell_value (sheet_of st') r 10 \<noteq> CStr (item (TEXT l) ''sum_month_orders_row_text'')"
  using assms
proof (induction orders arbitrary: st)
  case Nil
  then show ?case by simp
next
  case (Cons a orders)
  obtain st1 where st1: "process_order lib l existing st a = Inr st1"
      "process_orders lib l existing st1 orders = Inr st'"
    using Cons.prems(1) by (cases "process_order lib l existing st a") auto
  obtain d tp where c: "convert_to_jalali lib (date_paid a) = Inr ((y, m, d), tp)"
    using Cons.prems(2) by auto
  have n: "lookup_row existing (order_id a) = None" using Cons.prems(4) by simp
  have addr: "translate arabic_to_english (translate persian_to_english (address_1 (shipping a)))
             \<noteq> item (TEXT l) ''sum_month_orders_row_text''"
    using Cons.prems(3) by simp
  have s: "last_order_jalali_month st1 = Some (str_int y @ py ''-'' @ fmt02d m)
     \<and> (\<forall>r. 2 \<le> r \<longrightarrow> cell_value (sheet_of st1) r 10 \<noteq> CStr (item (TEXT l) ''sum_month_orders_row_text''))"
    by (rule step_no_sum_row[OF st1(1) c n Cons.prems(5) addr Cons.prems(6)])
  show ?case
    by (rule Cons.IH[OF st1(2)]) (use Cons.prems s in simp_all)
qed

lemma find_sum_rows_none:
  assumes "\<forall>r. 2 \<le> r \<longrightarrow> cell_value s r 10 \<noteq> CStr (item (TEXT l) ''sum_month_orders_row_text'')"
  shows "find_sum_rows l s = Inr [] \<or> find_sum_rows l s = Inl IndexError"
  using assms by (auto simp add: find_sum_rows_def col_values filter_empty_conv simp del: upt_Suc)

lemma close_sheet_no_sum_row:
  assumes "\<forall>r. 2 \<le> r \<longrightarrow> cell_value s r 10 \<noteq> CStr (item (TEXT l) ''sum_month_orders_row_text'')"
  shows "close_sheet l s = Inl IndexError"
  using find_sum_rows_none[OF assms] by (auto simp add: close_sheet_def)

text \<open>
  Claim C2. On a missing file, when every order of the batch is paid in the same Jalali month
  and no order has the label of the monthly sum row as its address, the run does not return a
  ledger: the loop never inserts a sum row, \<open>find_sum_rows\<close> returns the empty list and
  \<open>sum_rows[-1]\<close> raises \<open>IndexError\<close> (or the loop has raised before). No sum row, no row of
  all orders, and the file is not saved. The code does not do what the claim asks for.
\<close>

theorem new_file_single_month_fails:
  assumes "\<forall>order \<in> set orders. \<exists>d tp. convert_to_jalali lib (date_paid order) = Inr ((y, m, d), tp)"
    and "\<forall>order \<in> set orders.
           translate arabic_to_english (translate persian_to_english (address_1 (shipping order)))
             \<noteq> item (TEXT l) ''sum_month_orders_row_text''"
  shows "\<exists>e. write_to_excel lib l None orders = Inl e"
proof -
  let ?H = "map (\<lambda>kv. CStr (snd kv)) (COLUMN_HEADERS l)"
  let ?st0 = "\<lparr>sheet_of = [?H], last_order_jalali_month = None, from_row = 2,
         sum_row_indices = [], new_orders_count = 0\<rparr>"
  have none: "\<forall>i. lookup_row (existing_order_ids [?H]) i = None" by (auto simp add: lookup_row_None)
  have inv0: "\<forall>r. 2 \<le> r \<longrightarrow> cell_value (sheet_of ?st0) r 10 \<noteq> CStr (item (TEXT l) ''sum_month_orders_row_text'')"
    by (auto simp add: cell_value_beyond)
  show ?thesis
  proof (cases "process_orders lib l (existing_order_ids [?H]) ?st0 orders")
    case (Inl e)
    then show ?thesis by (simp add: write_to_excel_def Let_def open_sheet_new)
  next
    case (Inr st')
    have "\<forall>r. 2 \<le> r \<longrightarrow> cell_value (sheet_of st') r 10 \<noteq> CStr (item (TEXT l) ''sum_month_orders_row_text'')"
      by (rule run_no_sum_row[OF Inr assms none _ inv0]) simp
    then have "close_sheet l (sheet_of st') = Inl IndexError" by (rule close_sheet_no_sum_row)
    then show ?thesis using Inr by (simp add: write_to_excel_def Let_def open_sheet_new)
  qed
qed

lemma sample_address:
  "translate arabic_to_english (translate persian_to_english (address_1 (shipping order_b)))
     \<noteq> item (TEXT En) ''sum_month_orders_row_text''"
proof
  assume e: "translate arabic_to_english (translate persian_to_english (address_1 (shipping order_b)))
     = item (TEXT En) ''sum_month_orders_row_text''"
  have "length (translate arabic_to_english (translate persian_to_english (address_1 (shipping order_b)))) = 3"
    by (simp add: translate_def order_b_def sample_order_def py_def)
  moreover have "length (item (TEXT En) ''sum_month_orders_row_text'') = 14"
    by (simp add: item_def TEXT_def ENGLISH_TEXT_def py_def)
  ultimately show False using e by simp
qed

text \<open>
  An instance: the single order of 1403-01 on a missing file.
\<close>

theorem new_file_single_month_fails_witness:
  "(\<exists>d tp. convert_to_jalali lib0 (date_paid order_b) = Inr ((1403, 1, d), tp))
   \<and> translate arabic_to_english (translate persian_to_english (address_1 (shipping order_b)))
        \<noteq> item (TEXT En) ''sum_month_orders_row_text''
   \<and> (\<exists>e. write_to_excel lib0 En None [order_b] = Inl e)"
  using new_file_single_month_fails[of "[order_b]" lib0 1403 1 En] sample_address
  by (simp add: sample_converts)

section \<open>Sum rows inserted by a later run\<close>

text \<open>
  The effect of one pass of the loop, read cell by cell: first for an order that has a row,
  then for a new order of a new month.
\<close>

lemma step_existing_ok:
  assumes ex: "lookup_row existing (order_id order) = Some r"
    and c: "convert_to_jalali lib (date_paid order) = Inr ((y, m, d), tp)"
    and r: "2 \<le> r" "r \<le> length (sheet_of st)"
  shows "\<exists>st'. process_order lib l existing st order = Inr st'
     \<and> length (sheet_of st') = length (sheet_of st)
     \<and> hd (sheet_of st') = hd (sheet_of st)
     \<and> (\<forall>r' c'. c' \<notin> {2, 21, 22, 25} \<longrightarrow> cell_value (sheet_of st') r' c' = cell_value (sheet_of st) r' c')
     \<and> from_row st' = from_row st
     \<and> last_order_jalali_month st' = Some (str_int y @ py ''-'' @ fmt02d m)"
proof -
  let ?st' = "st\<lparr>sheet_of := update_existing l (sheet_of st) r order,
               last_order_jalali_month := Some (str_int y @ py ''-'' @ fmt02d m)\<rparr>"
  have p: "process_order lib l existing st order = Inr ?st'"
    by (rule process_order_existing[OF ex c])
  have ne: "sheet_of st \<noteq> []" using r by auto
  have 1: "length (sheet_of ?st') = length (sheet_of st)"
    using r by (simp add: length_update_existing)
  have 2: "hd (sheet_of ?st') = hd (sheet_of st)"
    using hd_update_existing[OF r(1) ne] by simp
  have 3: "\<forall>r' c'. c' \<notin> {2, 21, 22, 25} \<longrightarrow> cell_value (sheet_of ?st') r' c' = cell_value (sheet_of st) r' c'"
    using r(1) by (simp add: cell_value_update_existing col_values)
  show ?thesis
    using p 1 2 3 by (intro exI[of _ ?st']) simp
qed

lemma step_new_month_ok:
  assumes c: "convert_to_jalali lib (date_paid order) = Inr ((y, m, d), tp)"
    and n: "lookup_row existing (order_id order) = None"
    and lm: "last_order_jalali_month st = Some lm"
    and neq: "lm \<noteq> str_int y @ py ''-'' @ fmt02d m"
    and ne: "sheet_of st \<noteq> []"
    and hdr: "CStr (item (COLUMN_HEADERS l) ''order_id'') \<in> set (hd (sheet_of st))"
    and row: "create_order_row lib l order = Inr row"
    and li: "line_items order = []"
    and lst: "last (sheet_of st) \<noteq> []"
  shows "\<exists>st'. process_order lib l existing st order = Inr st'
     \<and> length (sheet_of st') = length (sheet_of st) + 2
     \<and> hd (sheet_of st') = hd (sheet_of st)
     \<and> (\<forall>r' c'. r' \<le> length (sheet_of st) \<longrightarrow> cell_value (sheet_of st') r' c' = cell_value (sheet_of st) r' c')
     \<and> cell_value (sheet_of st') (Suc (length (sheet_of st))) 1 = CNone
     \<and> cell_value (sheet_of st') (Suc (length (sheet_of st))) 10
          = CStr (item (TEXT l) ''sum_month_orders_row_text'')
     \<and> cell_value (sheet_of st') (Suc (length (sheet_of st))) 12
          = CStr (sum_formula 12 (from_row st) (length (sheet_of st)))
     \<and> (\<forall>c'. c' \<noteq> 24 \<longrightarrow> cell_value (sheet_of st') (length (sheet_of st) + 2) c' = row_value row c')"
proof -
  let ?s = "sheet_of st"
  let ?n = "length ?s"
  obtain s1 where s1: "add_sum_row l ?s (from_row st) (max_row ?s) = Inr (s1, Suc ?n)"
    using add_sum_row_ok[OF ne hdr lst] by blast
  have str: "length s1 = Suc ?n" "take ?n s1 = ?s"
    using add_sum_row_struct[OF ne s1 lst] by simp_all
  obtain cnt where cv: "\<forall>r c. cell_value s1 r c =
          (if r = Suc ?n then
             (if c = 10 then CStr (item (TEXT l) ''sum_month_orders_row_text'')
              else if c = 11 then CInt (int cnt)
              else if c \<in> {12, 13, 14, 15, 19, 23, 24} then CStr (sum_formula c (from_row st) ?n)
              else CNone)
           else cell_value ?s r c)"
    using add_sum_row_cells[OF ne s1 lst] by blast
  define t where "t = set_cell (s1 @ [row]) (Suc (length s1)) (col ''com_postage'')
                          (CStr (com_postage_value (Suc (length s1))))"
  let ?st' = "\<lparr>sheet_of = t,
            last_order_jalali_month = Some (str_int y @ py ''-'' @ fmt02d m),
            from_row = max_row s1 + 1,
            sum_row_indices = sum_row_indices st @ [Suc ?n],
            new_orders_count = new_orders_count st + 1\<rparr>"
  have p: "process_order lib l existing st order = Inr ?st'"
    unfolding t_def by (rule process_order_new_sum[OF c n lm neq s1 row li])
  have lt: "length t = ?n + 2" unfolding t_def using str(1) by (simp add: length_set_cell)
  have ct: "cell_value t r' c' = (if r' = ?n + 2 \<and> c' = 24 then CStr (com_postage_value (?n + 2))
      else cell_value (s1 @ [row]) r' c')" for r' c'
    unfolding t_def using str(1) by (simp add: col_values cell_value_set_cell)
  have low: "cell_value t r' c' = cell_value s1 r' c'" if "r' \<le> Suc ?n" for r' c'
  proof -
    have "cell_value t r' c' = cell_value (s1 @ [row]) r' c'" using that by (simp add: ct)
    also have "\<dots> = cell_value s1 r' c'" using that str(1) by (simp add: cell_value_append_left)
    finally show ?thesis .
  qed
  have ht: "hd t = hd ?s"
  proof -
    have s1ne: "s1 \<noteq> []" using str(1) by auto
    have "hd t = hd (s1 @ [row])"
      unfolding t_def by (rule hd_set_cell) (use str(1) in simp_all)
    also have "\<dots> = hd s1" using s1ne by simp
    also have "\<dots> = hd (take ?n s1)" using ne by (simp add: hd_take)
    also have "\<dots> = hd ?s" by (simp only: str(2))
    finally show ?thesis .
  qed
  have old: "\<forall>r' c'. r' \<le> ?n \<longrightarrow> cell_value t r' c' = cell_value ?s r' c'"
    using cv by (simp add: low)
  have sr: "cell_value t (Suc ?n) c' = cell_value s1 (Suc ?n) c'" for c' by (rule low) simp
  have v1: "cell_value t (Suc ?n) 1 = CNone" unfolding sr using cv by simp
  have v10: "cell_value t (Suc ?n) 10 = CStr (item (TEXT l) ''sum_month_orders_row_text'')"
    unfolding sr using cv by simp
  have v12: "cell_value t (Suc ?n) 12 = CStr (sum_formula 12 (from_row st) ?n)"
    unfolding sr using cv by simp
  have new: "\<forall>c'. c' \<noteq> 24 \<longrightarrow> cell_value t (?n + 2) c' = row_value row c'"
  proof (intro allI impI)
    fix c' :: nat
    assume "c' \<noteq> 24"
    then have "cell_value t (?n + 2) c' = cell_value (s1 @ [row]) (?n + 2) c'" by (simp add: ct)
    also have "\<dots> = row_value row c'" using str(1) by (simp only: cell_value_snoc) simp
    finally show "cell_value t (?n + 2) c' = row_value row c'" .
  qed
  show ?thesis
    using p lt ht old v1 v10 v12 new by (intro exI[of _ ?st']) simp
qed

lemma close_sheet_keeps:
  assumes "CStr (item (COLUMN_HEADERS l) ''order_id'') \<in> set (hd s)"
    and "2 \<le> r" "r \<le> length s"
    and "cell_value s r 10 = CStr (item (TEXT l) ''sum_month_orders_row_text'')"
    and "last s \<noteq> []"
  shows "\<exists>f. close_sheet l s = Inr f \<and> length f = length s + 2
     \<and> (\<forall>r' c'. r' \<le> length s \<longrightarrow> cell_value f r' c' = cell_value s r' c')"
proof -
  obtain f where f: "close_sheet l s = Inr f" using close_sheet_ok[OF assms] by blast
  obtain a b where ab: "f = s @ [a, b]" using close_sheet_Inr[OF f assms(5)] by blast
  show ?thesis using f ab by (auto simp add: cell_value_append_left)
qed

lemma sum_formulas:
  "sum_formula 12 2 2 = py ''=SUM(L2:L2)''" "sum_formula 12 2 4 = py ''=SUM(L2:L4)''"
  by (simp_all add: sum_formula_def letters str_nat.simps py_def)

text \<open>
  Claim C5. A first run on a missing file with the orders of 1402-12 and 1403-01 writes a
  ledger; a later run on that ledger with the same two orders and a new order of 1403-02 inserts
  the sum row of 1403-01 in row 5. Its formula sums the rows 2 to 4: row 2 holds order 1, paid
  in 1402-12 and already summed by the sum row of 1402-12 in row 3, and row 3 is that sum row
  itself. The loop starts every run with \<open>from_row = 2\<close>, whatever sum rows the file holds. The
  code does not do what the claim asks for.
\<close>

theorem later_run_sum_ranges_overlap:
  "\<exists>f1 f2. write_to_excel lib0 En None [order_a, order_b] = Inr f1
     \<and> write_to_excel lib0 En (Some f1) [order_a, order_b, order_c] = Inr f2
     \<and> cell_value f2 2 1 = CInt 1
     \<and> cell_value f2 2 3 = CStr (py ''1402/12/29'')
     \<and> cell_value f2 3 10 = CStr (py ''Monthly Orders'')
     \<and> cell_value f2 3 12 = CStr (py ''=SUM(L2:L2)'')
     \<and> cell_value f2 4 1 = CInt 2
     \<and> cell_value f2 4 3 = CStr (py ''1403/01/01'')
     \<and> cell_value f2 5 10 = CStr (py ''Monthly Orders'')
     \<and> cell_value f2 5 12 = CStr (py ''=SUM(L2:L4)'')"
proof -
  obtain f1 s where f1:
    "write_to_excel lib0 En None [order_a, order_b] = Inr f1"
    "open_sheet En (Some f1) = s"
    "length s = 4"
    "CStr (item (COLUMN_HEADERS En) ''order_id'') \<in> set (hd s)"
    "cell_value s 2 1 = CInt 1"
    "cell_value s 3 1 = CNone"
    "cell_value s 3 10 = CStr (item (TEXT En) ''sum_month_orders_row_text'')"
    "cell_value s 3 12 = CStr (sum_formula 12 2 2)"
    "cell_value s 4 1 = CInt 2"
    "cell_value s 2 3 = CStr (py ''1402/12/29'')"
    "cell_value s 4 3 = CStr (py ''1403/01/01'')"
    "last s \<noteq> []"
    by (rule first_run_file)
  let ?ex = "existing_order_ids s"
  let ?st0 = "\<lparr>sheet_of = s, last_order_jalali_month = None, from_row = 2,
         sum_row_indices = [], new_orders_count = 0\<rparr>"
  have col1: "cell_value s r 1 = (if r = 2 then CInt 1 else if r = 4 then CInt 2 else CNone)"
    if "2 \<le> r" "r \<le> 4" for r
  proof -
    have "r = 2 \<or> r = 3 \<or> r = 4" using that by arith
    then show ?thesis using f1(5,6,9) by auto
  qed
  have la: "lookup_row ?ex (order_id order_a) = Some 2"
  proof -
    have "\<forall>r'. 2 < r' \<and> r' \<le> length s \<longrightarrow> cell_value s r' 1 \<noteq> CInt 1"
      using col1 f1(3) by auto
    then show ?thesis
      unfolding sample_ids lookup_row_Some using f1(3,5) by simp
  qed
  have lb: "lookup_row ?ex (order_id order_b) = Some 4"
    unfolding sample_ids lookup_row_Some using f1(3,9) by auto
  have lc: "lookup_row ?ex (order_id order_c) = None"
    unfolding sample_ids lookup_row_None using col1 f1(3) by auto
  obtain st1 where st1: "process_order lib0 En ?ex ?st0 order_a = Inr st1"
      "length (sheet_of st1) = length s" "hd (sheet_of st1) = hd s"
      "\<forall>r' c'. c' \<notin> {2, 21, 22, 25} \<longrightarrow> cell_value (sheet_of st1) r' c' = cell_value s r' c'"
      "from_row st1 = 2"
    using step_existing_ok[OF la sample_converts(1), of ?st0 En] f1(3) by auto
  obtain st2 where st2: "process_order lib0 En ?ex st1 order_b = Inr st2"
      "length (sheet_of st2) = length s" "hd (sheet_of st2) = hd s"
      "\<forall>r' c'. c' \<notin> {2, 21, 22, 25} \<longrightarrow> cell_value (sheet_of st2) r' c' = cell_value s r' c'"
      "from_row st2 = 2"
      "last_order_jalali_month st2 = Some (py ''1403-01'')"
    using step_existing_ok[OF lb sample_converts(2), of st1 En] f1(3) st1(2-5)
    by (auto simp add: month_keys)
  obtain row_c where rc: "create_order_row lib0 En order_c = Inr row_c" using sample_rows(3) by blast
  have ne2: "sheet_of st2 \<noteq> []" using st2(2) f1(3) by auto
  have hdr2: "CStr (item (COLUMN_HEADERS En) ''order_id'') \<in> set (hd (sheet_of st2))"
    using f1(4) st2(3) by simp
  have neq: "py ''1403-01'' \<noteq> str_int 1403 @ py ''-'' @ fmt02d 2"
    by (simp only: month_keys month_keys_differ) simp
  have lst2: "last (sheet_of st2) \<noteq> []"
    using last_row_holds_cell[of "sheet_of st2" 4 1] st2(2,4) f1(3,9) by simp
  have rc1: "row_value row_c 1 = CInt 3" using create_order_row_shape[OF rc] by (simp add: sample_ids)
  obtain st3 where st3: "process_order lib0 En ?ex st2 order_c = Inr st3"
      "length (sheet_of st3) = length (sheet_of st2) + 2"
      "hd (sheet_of st3) = hd (sheet_of st2)"
      "\<forall>r' c'. r' \<le> length (sheet_of st2) \<longrightarrow> cell_value (sheet_of st3) r' c' = cell_value (sheet_of st2) r' c'"
      "cell_value (sheet_of st3) (Suc (length (sheet_of st2))) 10
          = CStr (item (TEXT En) ''sum_month_orders_row_text'')"
      "cell_value (sheet_of st3) (Suc (length (sheet_of st2))) 12
          = CStr (sum_formula 12 (from_row st2) (length (sheet_of st2)))"
      "\<forall>c'. c' \<noteq> 24 \<longrightarrow> cell_value (sheet_of st3) (length (sheet_of st2) + 2) c' = row_value row_c c'"
    using step_new_month_ok[OF sample_converts(3) lc st2(6) neq ne2 hdr2 rc sample_ids(6) lst2] by blast
  define t where "t = sheet_of st3"
  have lt: "length t = 6" unfolding t_def using st3(2) st2(2) f1(3) by simp
  have old: "cell_value t r' c' = cell_value s r' c'" if "r' \<le> 4" "c' \<notin> {2, 21, 22, 25}" for r' c'
    unfolding t_def using that st3(4) st2(2,4) f1(3) by simp
  have t510: "cell_value t 5 10 = CStr (item (TEXT En) ''sum_month_orders_row_text'')"
    unfolding t_def using st3(5) st2(2) f1(3) by simp
  have t512: "cell_value t 5 12 = CStr (sum_formula 12 2 4)"
    unfolding t_def using st3(6) st2(2,5) f1(3) by simp
  have t61: "cell_value t 6 1 = CInt 3"
    unfolding t_def using st3(7) st2(2) f1(3) rc1 by simp
  have lstt: "last t \<noteq> []"
    using last_row_holds_cell[of t 6 1] lt t61 by simp
  have ht: "CStr (item (COLUMN_HEADERS En) ''order_id'') \<in> set (hd t)"
    unfolding t_def using st3(3) hdr2 by simp
  have run: "process_orders lib0 En (existing_order_ids (open_sheet En (Some f1)))
        \<lparr>sheet_of = open_sheet En (Some f1), last_order_jalali_month = None, from_row = 2,
         sum_row_indices = [], new_orders_count = 0\<rparr> [order_a, order_b, order_c] = Inr st3"
    unfolding f1(2) using st1(1) st2(1) st3(1) by simp
  obtain f2 where f2: "close_sheet En t = Inr f2"
      "\<forall>r' c'. r' \<le> length t \<longrightarrow> cell_value f2 r' c' = cell_value t r' c'"
    using close_sheet_keeps[OF ht _ _ t510 lstt] lt by auto
  have w2: "write_to_excel lib0 En (Some f1) [order_a, order_b, order_c] = Inr f2"
    using run f2(1) by (simp add: write_to_excel_def Let_def t_def)
  have lab: "item (TEXT En) ''sum_month_orders_row_text'' = py ''Monthly Orders''"
    by (simp add: item_def TEXT_def ENGLISH_TEXT_def)
  have fs: "cell_value f2 r' c' = cell_value s r' c'" if "r' \<le> 4" "c' \<notin> {2, 21, 22, 25}" for r' c'
    using that f2(2) lt old by simp
  have ft: "cell_value f2 5 c' = cell_value t 5 c'" for c' using f2(2) lt by simp
  have c1: "cell_value f2 2 1 = CInt 1" using fs[of 2 1] f1(5) by simp
  have c2: "cell_value f2 2 3 = CStr (py ''1402/12/29'')" using fs[of 2 3] f1(10) by simp
  have c3: "cell_value f2 3 10 = CStr (py ''Monthly Orders'')" using fs[of 3 10] f1(7) lab by simp
  have c4: "cell_value f2 3 12 = CStr (py ''=SUM(L2:L2)'')"
    using fs[of 3 12] f1(8) by (simp add: sum_formulas)
  have c5: "cell_value f2 4 1 = CInt 2" using fs[of 4 1] f1(9) by simp
  have c6: "cell_value f2 4 3 = CStr (py ''1403/01/01'')" using fs[of 4 3] f1(11) by simp
  have c7: "cell_value f2 5 10 = CStr (py ''Monthly Orders'')" using ft[of 10] t510 lab by simp
  have c8: "cell_value f2 5 12 = CStr (py ''=SUM(L2:L4)'')"
    using ft[of 12] t512 by (simp add: sum_formulas)
  show ?thesis
    using f1(1) w2 c1 c2 c3 c4 c5 c6 c7 c8 by blast
qed

section \<open>A second run that does not leave the ledger as it was\<close>

lemma close_sheet_sum_row:
  assumes "close_sheet l s = Inr f" and "last s \<noteq> []"
  shows "cell_value f (Suc (length s)) 1 = CNone
     \<and> cell_value f (Suc (length s)) 10 = CStr (item (TEXT l) ''sum_month_orders_row_text'')"
proof -
  obtain srs where srs: "find_sum_rows l s = Inr srs" "srs \<noteq> []"
    using assms(1) by (cases "find_sum_rows l s") (auto simp add: close_sheet_def split: if_splits)
  then have ne: "s \<noteq> []" by (auto simp add: find_sum_rows_def max_row_Nil split: if_splits)
  obtain s1 idx where a: "add_sum_row l s (last srs + 1) (max_row s) = Inr (s1, idx)"
    using assms(1) srs
    by (cases "add_sum_row l s (last srs + 1) (max_row s)") (auto simp add: close_sheet_def)
  obtain srs' where srs': "find_sum_rows l s1 = Inr srs'"
    using assms(1) srs a by (cases "find_sum_rows l s1") (auto simp add: close_sheet_def)
  have f: "f = s1 @ [last f]"
    using assms(1) srs a srs' by (auto simp add: close_sheet_def append_totals_def append_row_def)
  have st: "length s1 = Suc (length s)"
    using add_sum_row_struct[OF ne a assms(2)] by simp
  have "cell_value f (Suc (length s)) c = cell_value (s1 @ [last f]) (Suc (length s)) c" for c
    using f by simp
  also have "\<dots> c = cell_value s1 (Suc (length s)) c" for c
    by (rule cell_value_append_left) (simp add: st)
  finally have e: "cell_value f (Suc (length s)) c = cell_value s1 (Suc (length s)) c" for c .
  show ?thesis
    unfolding e using add_sum_row_cells[OF ne a assms(2)] by auto
qed

lemma create_order_row_name:
  assumes "create_order_row lib l order = Inr row"
  shows "row_value row 5 = CStr (first_name (billing order) @ py '' '' @ last_name (billing order))"
  using assms
  by (auto simp add: create_order_row_def Let_def row_value_def
           split: sum.splits prod.splits cell.splits if_splits)

lemma named_fields:
  "order_id order_named = 1"
  "date_paid order_named = Some (py ''2024-03-19T10:00:00'')"
  "line_items order_named = []"
  "shipping_lines order_named = [py ''50'']"
  "order_total order_named = py ''1000''"
  "discount_total order_named = py ''100''"
  "first_name (billing order_named) @ py '' '' @ last_name (billing order_named) = py ''Order ID''"
  by (simp_all add: order_named_def order_a_def sample_order_def py_def)

lemma named_birthday:
  "find_meta_value order_named (py ''_billing_field_529'') = CStr (py ''1370/01/01'')"
  by (simp add: find_meta_value_def order_named_def order_a_def sample_order_def birthday_meta_def)

lemma named_converts:
  "convert_to_jalali lib0 (date_paid order_named) = Inr ((1402, 12, 29), py ''10:00:00'')"
  by (simp add: named_fields convert_samples)

lemma named_row: "\<exists>row. create_order_row lib0 l order_named = Inr row"
  by (rule create_order_row_ok[where t = 50 and j = "((1402, 12, 29), py ''10:00:00'')"
        and a = 1000 and d = 100 and b = "py ''1370/01/01''"])
     (simp_all add: named_fields convert_samples lib0_fields(1) plain_int_samples named_birthday
        shipping_sample)

lemma order_id_label: "item (COLUMN_HEADERS En) ''order_id'' = py ''Order ID''"
  by (simp add: item_def COLUMN_HEADERS_def ENGLISH_COLUMN_HEADERS_def)

text \<open>
  Claim C1. A second run does not always leave the ledger as the first run wrote it. On a file
  of one row the header is appended as row 2 and the last two rows are removed, so the sheet is
  empty and the first order lands in row 1, outside the rows that the index of identifiers
  reads. When a cell of that order reads \<open>Order ID\<close>, the label \<open>add_sum_row\<close> looks for in
  row 1, the first run returns a ledger. The second run on that ledger misses order 1 and
  inserts it once more: row 4, the last sum row of the first ledger, holds order 1 in the
  second. The code does not do what the claim asks for.
\<close>

theorem one_row_file_second_run_differs:
  "\<exists>f1 f2. write_to_excel lib0 En (Some [[CStr (py ''Order ID'')]]) [order_named, order_b] = Inr f1
     \<and> write_to_excel lib0 En (Some f1) [order_named, order_b] = Inr f2
     \<and> cell_value f1 4 1 = CNone \<and> cell_value f2 4 1 = CInt 1"
proof -
  let ?file = "Some [[CStr (py ''Order ID'')]]"
  let ?lab = "CStr (item (TEXT En) ''sum_month_orders_row_text'')"
  obtain row_n where rn: "create_order_row lib0 En order_named = Inr row_n" using named_row by blast
  obtain row_b where rb: "create_order_row lib0 En order_b = Inr row_b" using sample_rows(2) by blast
  have n1: "row_value row_n 1 = CInt 1" using create_order_row_shape[OF rn] by (simp add: named_fields)
  have n5: "row_value row_n 5 = CStr (py ''Order ID'')"
    using create_order_row_name[OF rn] by (simp only: named_fields)
  have b1: "row_value row_b 1 = CInt 2" using create_order_row_shape[OF rb] by (simp add: sample_ids)
  have neq: "py ''1402-12'' \<noteq> str_int 1403 @ py ''-'' @ fmt02d 1"
    by (simp only: month_keys month_keys_differ) simp

  (* The first run: the sheet is empty once it is opened. *)
  have op1: "open_sheet En ?file = []" by (rule open_sheet_one_row) simp
  let ?ex0 = "existing_order_ids []"
  let ?st0 = "\<lparr>sheet_of = [], last_order_jalali_month = None, from_row = 2,
         sum_row_indices = [], new_orders_count = 0\<rparr>"
  have none0: "lookup_row ?ex0 i = None" for i by (auto simp add: lookup_row_None)
  define s1 where "s1 = set_cell ([] @ [row_n]) (Suc 0) (col ''com_postage'') (CStr (com_postage_value (Suc 0)))"
  let ?st1 = "\<lparr>sheet_of = s1, last_order_jalali_month = Some (py ''1402-12''), from_row = 2,
         sum_row_indices = [], new_orders_count = 1\<rparr>"
  have p1: "process_order lib0 En ?ex0 ?st0 order_named = Inr ?st1"
    unfolding s1_def
    using process_order_new_simple[OF named_converts none0 _ rn named_fields(3), of ?st0]
    by (simp add: month_keys)
  have l1: "length s1 = 1" unfolding s1_def by (simp add: length_set_cell)
  have ne1: "s1 \<noteq> []" using l1 by auto
  have c1: "cell_value s1 r c = (if r = 1 \<and> c = 24 then CStr (com_postage_value 1)
      else cell_value [row_n] r c)" for r c
    unfolding s1_def by (simp add: col_values cell_value_set_cell)
  have last1: "last s1 \<noteq> []"
    using last_row_holds_cell[of s1 1 24] l1 by (simp add: c1)
  have "cell_value s1 1 5 = cell_value [row_n] 1 5" by (simp add: c1)
  also have "\<dots> = row_value row_n 5" by (simp add: cell_value_def)
  finally have s115: "cell_value s1 1 5 = CStr (py ''Order ID'')" using n5 by simp
  have h1: "CStr (item (COLUMN_HEADERS En) ''order_id'') \<in> set (hd s1)"
    unfolding order_id_label by (rule cell_in_first_row[OF s115]) simp
  obtain st2 where st2: "process_order lib0 En ?ex0 ?st1 order_b = Inr st2"
      "length (sheet_of st2) = length s1 + 2"
      "hd (sheet_of st2) = hd s1"
      "cell_value (sheet_of st2) (Suc (length s1)) 1 = CNone"
      "cell_value (sheet_of st2) (Suc (length s1)) 10 = ?lab"
      "\<forall>c'. c' \<noteq> 24 \<longrightarrow> cell_value (sheet_of st2) (length s1 + 2) c' = row_value row_b c'"
    using step_new_month_ok[OF sample_converts(2) none0, of ?st1 "py ''1402-12''" En row_b]
      neq ne1 h1 rb sample_ids(5) last1 by auto
  define t where "t = sheet_of st2"
  have lt: "length t = 3" unfolding t_def using st2(2) l1 by simp
  have tne: "t \<noteq> []" using lt by auto
  have ht: "CStr (item (COLUMN_HEADERS En) ''order_id'') \<in> set (hd t)"
    unfolding t_def st2(3) by (rule h1)
  have t21: "cell_value t 2 1 = CNone"
    unfolding t_def using st2(4) l1 by (simp add: numeral_2_eq_2)
  have t210: "cell_value t 2 10 = ?lab"
    unfolding t_def using st2(5) l1 by (simp add: numeral_2_eq_2)
  have t31: "cell_value t 3 1 = CInt 2"
    unfolding t_def using st2(6) l1 b1 by (simp add: numeral_3_eq_3)
  have lastt: "last t \<noteq> []"
    using last_row_holds_cell[of t 3 1] lt t31 by simp
  have run1: "process_orders lib0 En (existing_order_ids (open_sheet En ?file))
        \<lparr>sheet_of = open_sheet En ?file, last_order_jalali_month = None, from_row = 2,
         sum_row_indices = [], new_orders_count = 0\<rparr> [order_named, order_b] = Inr st2"
    unfolding op1 using p1 st2(1) by simp
  obtain f1 where f1: "close_sheet En t = Inr f1"
    using close_sheet_ok[OF ht _ _ t210 lastt] lt by auto
  have w1: "write_to_excel lib0 En ?file [order_named, order_b] = Inr f1"
    using run1 f1 by (simp add: write_to_excel_def Let_def t_def)
  have f141: "cell_value f1 4 1 = CNone" using close_sheet_sum_row[OF f1 lastt] lt by simp

  (* The second run: order 1 sits in row 1, which the index of identifiers leaves out. *)
  have op2: "open_sheet En (Some f1) = t" by (rule reopen_closed[OF f1 lastt])
  let ?ex = "existing_order_ids t"
  let ?su0 = "\<lparr>sheet_of = t, last_order_jalali_month = None, from_row = 2,
         sum_row_indices = [], new_orders_count = 0\<rparr>"
  have col1: "cell_value t r 1 = (if r = 3 then CInt 2 else CNone)" if "2 \<le> r" "r \<le> 3" for r
  proof -
    have "r = 2 \<or> r = 3" using that by arith
    then show ?thesis using t21 t31 by auto
  qed
  have ln: "lookup_row ?ex (order_id order_named) = None"
    unfolding named_fields lookup_row_None using col1 lt by auto
  have lb: "lookup_row ?ex (order_id order_b) = Some 3"
    unfolding sample_ids lookup_row_Some using lt t31 by auto
  define u where "u = set_cell (t @ [row_n]) (Suc (length t)) (col ''com_postage'')
                        (CStr (com_postage_value (Suc (length t))))"
  let ?su1 = "\<lparr>sheet_of = u, last_order_jalali_month = Some (py ''1402-12''), from_row = 2,
         sum_row_indices = [], new_orders_count = 1\<rparr>"
  have q1: "process_order lib0 En ?ex ?su0 order_named = Inr ?su1"
    unfolding u_def
    using process_order_new_simple[OF named_converts ln _ rn named_fields(3), of ?su0]
    by (simp add: month_keys)
  have lu: "length u = 4" unfolding u_def using lt by (simp add: length_set_cell)
  have cu: "cell_value u r c = (if r = 4 \<and> c = 24 then CStr (com_postage_value 4)
      else cell_value (t @ [row_n]) r c)" for r c
    unfolding u_def using lt by (simp add: col_values cell_value_set_cell)
  have hu: "hd u = hd t"
  proof -
    have "hd u = hd (t @ [row_n])" unfolding u_def by (rule hd_set_cell) (use lt in simp_all)
    also have "\<dots> = hd t" using tne by simp
    finally show ?thesis .
  qed
  have "cell_value u 4 1 = cell_value (t @ [row_n]) 4 1" by (simp add: cu)
  also have "\<dots> = row_value row_n 1" using lt by (simp only: cell_value_snoc) simp
  finally have u41: "cell_value u 4 1 = CInt 1" using n1 by simp
  have "cell_value u 2 10 = cell_value (t @ [row_n]) 2 10" by (simp add: cu)
  also have "\<dots> = cell_value t 2 10" using lt by (simp add: cell_value_append_left)
  finally have u210: "cell_value u 2 10 = ?lab" using t210 by simp
  obtain su2 where su2: "process_order lib0 En ?ex ?su1 order_b = Inr su2"
      "length (sheet_of su2) = length u" "hd (sheet_of su2) = hd u"
      "\<forall>r' c'. c' \<notin> {2, 21, 22, 25} \<longrightarrow> cell_value (sheet_of su2) r' c' = cell_value u r' c'"
    using step_existing_ok[OF lb sample_converts(2), of ?su1 En] lu by auto
  define v where "v = sheet_of su2"
  have lv: "length v = 4" unfolding v_def using su2(2) lu by simp
  have hv: "CStr (item (COLUMN_HEADERS En) ''order_id'') \<in> set (hd v)"
    unfolding v_def su2(3) hu by (rule ht)
  have v210: "cell_value v 2 10 = ?lab" unfolding v_def using su2(4) u210 by simp
  have v41: "cell_value v 4 1 = CInt 1" unfolding v_def using su2(4) u41 by simp
  have lastv: "last v \<noteq> []"
    using last_row_holds_cell[of v 4 1] lv v41 by simp
  have run2: "process_orders lib0 En (existing_order_ids (open_sheet En (Some f1)))
        \<lparr>sheet_of = open_sheet En (Some f1), last_order_jalali_month = None, from_row = 2,
         sum_row_indices = [], new_orders_count = 0\<rparr> [order_named, order_b] = Inr su2"
    unfolding op2 using q1 su2(1) by simp
  obtain f2 where f2: "close_sheet En v = Inr f2"
      "\<forall>r' c'. r' \<le> length v \<longrightarrow> cell_value f2 r' c' = cell_value v r' c'"
    using close_sheet_keeps[OF hv _ _ v210 lastv] lv by auto
  have w2: "write_to_excel lib0 En (Some f1) [order_named, order_b] = Inr f2"
    using run2 f2(1) by (simp add: write_to_excel_def Let_def v_def)
  have f241: "cell_value f2 4 1 = CInt 1" using f2(2) lv v41 by simp
  show ?thesis using w1 w2 f141 f241 by blast
qed

end
